theory Spec2Isabelle
  imports Complex_Main "HOL-Library.AList" "HOL-Library.Char_ord" "HOL-Library.List_Lexorder"
begin

section \<open>JavaScript values used by the analytics helpers of App.jsx\<close>

text \<open>
  A JavaScript Number is NaN, one of the two infinities, or a finite value. Finite values
  are carried as reals and the arithmetic on them is exact: the rounding of binary64 (and
  with it overflow, underflow and the sign of zero) is not part of this model. The
  special values follow IEEE 754 as JavaScript exposes them.
\<close>

datatype jsnum = NaN | PInf | NInf | Fin real

fun is_finite :: "jsnum \<Rightarrow> bool" where
  "is_finite (Fin r) = True"
| "is_finite n = False"

fun jneg :: "jsnum \<Rightarrow> jsnum" where
  "jneg NaN = NaN"
| "jneg PInf = NInf"
| "jneg NInf = PInf"
| "jneg (Fin r) = Fin (- r)"

fun jadd :: "jsnum \<Rightarrow> jsnum \<Rightarrow> jsnum" where
  "jadd NaN b = NaN"
| "jadd a NaN = NaN"
| "jadd PInf NInf = NaN"
| "jadd NInf PInf = NaN"
| "jadd PInf b = PInf"
| "jadd NInf b = NInf"
| "jadd a PInf = PInf"
| "jadd a NInf = NInf"
| "jadd (Fin x) (Fin y) = Fin (x + y)"

definition jsub :: "jsnum \<Rightarrow> jsnum \<Rightarrow> jsnum" where
  "jsub a b = jadd a (jneg b)"

text \<open>The sign of a non-NaN number: \<open>1\<close>, \<open>0\<close> or \<open>-1\<close>.\<close>

fun jsign :: "jsnum \<Rightarrow> int" where
  "jsign NaN = 0"
| "jsign PInf = 1"
| "jsign NInf = - 1"
| "jsign (Fin r) = (if r > 0 then 1 else if r < 0 then - 1 else 0)"

definition inf_of_sign :: "int \<Rightarrow> jsnum" where
  "inf_of_sign s = (if s > 0 then PInf else if s < 0 then NInf else NaN)"

fun jmul :: "jsnum \<Rightarrow> jsnum \<Rightarrow> jsnum" where
  "jmul NaN b = NaN"
| "jmul a NaN = NaN"
| "jmul (Fin x) (Fin y) = Fin (x * y)"
| "jmul a b = inf_of_sign (jsign a * jsign b)"

text \<open>
  Division: a finite value over zero is an infinity of the dividend's sign (zero is
  taken as \<open>+0\<close>), \<open>0 / 0\<close> and \<open>\<infinity> / \<infinity>\<close> are NaN, a finite
  value over an infinity is zero.
\<close>

fun jdiv :: "jsnum \<Rightarrow> jsnum \<Rightarrow> jsnum" where
  "jdiv NaN b = NaN"
| "jdiv a NaN = NaN"
| "jdiv (Fin x) (Fin y) = (if y = 0 then inf_of_sign (jsign (Fin x)) else Fin (x / y))"
| "jdiv (Fin x) b = Fin 0"
| "jdiv a (Fin y) = inf_of_sign (jsign a * (if y < 0 then - 1 else 1))"
| "jdiv a b = NaN"

text \<open>The comparisons \<open><=\<close> and \<open><\<close>: false as soon as one side is NaN.\<close>

fun jle :: "jsnum \<Rightarrow> jsnum \<Rightarrow> bool" where
  "jle NaN b = False"
| "jle a NaN = False"
| "jle NInf b = True"
| "jle a PInf = True"
| "jle PInf b = False"
| "jle a NInf = False"
| "jle (Fin x) (Fin y) = (x \<le> y)"

definition jlt :: "jsnum \<Rightarrow> jsnum \<Rightarrow> bool" where
  "jlt a b = (jle a b \<and> a \<noteq> b)"

text \<open>\<open>Math.max\<close> and \<open>Math.min\<close> of two arguments: NaN if either is NaN.\<close>

definition jmax :: "jsnum \<Rightarrow> jsnum \<Rightarrow> jsnum" where
  "jmax a b = (if a = NaN \<or> b = NaN then NaN else if jle a b then b else a)"


text \<open>
  \<open>Number(x.toFixed(2))\<close>: the nearest multiple of \<open>1/100\<close>, a tie going away from
  zero; from \<open>10^21\<close> on \<open>toFixed\<close> prints the number itself. NaN and the infinities
  print as their names, which \<open>Number\<close> reads back.
\<close>

fun toFixed2 :: "jsnum \<Rightarrow> jsnum" where
  "toFixed2 (Fin x) =
     (if \<bar>x\<bar> \<ge> 10 ^ 21 then Fin x
      else if x < 0 then Fin (- (real_of_int \<lfloor>(- x) * 100 + 1 / 2\<rfloor> / 100))
      else Fin (real_of_int \<lfloor>x * 100 + 1 / 2\<rfloor> / 100))"
| "toFixed2 n = n"

subsection \<open>Strings and the conversion of a string to a number\<close>

text \<open>
  Strings are lists of code units below 256. The white space of \<open>trim\<close> and of
  \<open>Number\<close> in that range: tab, line feed, vertical tab, form feed, carriage return,
  space and the no-break space.
\<close>

definition is_ws :: "char \<Rightarrow> bool" where
  "is_ws c = (let n = (of_char c :: nat) in (9 \<le> n \<and> n \<le> 13) \<or> n = 32 \<or> n = 160)"

definition js_trimStart :: "string \<Rightarrow> string" where
  "js_trimStart s = dropWhile is_ws s"

definition js_trim :: "string \<Rightarrow> string" where
  "js_trim s = rev (dropWhile is_ws (rev (dropWhile is_ws s)))"

text \<open>\<open>s.replace(/,/g, "")\<close>\<close>

definition remove_commas :: "string \<Rightarrow> string" where
  "remove_commas s = filter (\<lambda>c. c \<noteq> CHR '','') s"

definition is_digit :: "char \<Rightarrow> bool" where
  "is_digit c = (let n = (of_char c :: nat) in 48 \<le> n \<and> n \<le> 57)"

definition digit_val :: "char \<Rightarrow> nat" where
  "digit_val c = of_char c - 48"

definition digits_val :: "string \<Rightarrow> nat" where
  "digits_val ds = foldl (\<lambda>a c. 10 * a + digit_val c) 0 ds"

text \<open>
  The exponent part of a decimal literal, when it is all that is left of the string:
  nothing, or \<open>e\<close>/\<open>E\<close>, an optional sign and at least one digit.
\<close>

definition exponent_part :: "string \<Rightarrow> int option" where
  "exponent_part s =
     (case s of
        [] \<Rightarrow> Some 0
      | c # t \<Rightarrow>
          if c = CHR ''e'' \<or> c = CHR ''E'' then
            (let neg = (t \<noteq> [] \<and> hd t = CHR ''-'');
                 ds = (if t \<noteq> [] \<and> (hd t = CHR ''-'' \<or> hd t = CHR ''+'') then tl t else t)
             in if ds \<noteq> [] \<and> list_all is_digit ds
                then Some (if neg then - int (digits_val ds) else int (digits_val ds))
                else None)
          else None)"

definition scale10 :: "real \<Rightarrow> int \<Rightarrow> real" where
  "scale10 x e = (if e \<ge> 0 then x * 10 ^ nat e else x / 10 ^ nat (- e))"

text \<open>The digits after a decimal point at the head of the string, and what follows them.\<close>

definition frac_digits :: "string \<Rightarrow> string" where
  "frac_digits r = (case r of [] \<Rightarrow> [] | c # t \<Rightarrow> if c = CHR ''.'' then takeWhile is_digit t else [])"

definition after_frac :: "string \<Rightarrow> string" where
  "after_frac r = (case r of [] \<Rightarrow> [] | c # t \<Rightarrow> if c = CHR ''.'' then dropWhile is_digit t else r)"

definition decimal_value :: "string \<Rightarrow> string \<Rightarrow> real" where
  "decimal_value ip fp = real (digits_val ip) + real (digits_val fp) / 10 ^ length fp"

text \<open>
  An unsigned decimal literal of \<open>StringToNumber\<close>: \<open>Infinity\<close>, or digits with an
  optional fraction and exponent, at least one digit before or after the point.
\<close>

definition str_unsigned_decimal :: "string \<Rightarrow> jsnum" where
  "str_unsigned_decimal s =
     (if s = ''Infinity'' then PInf
      else let ip = takeWhile is_digit s; r1 = dropWhile is_digit s;
               fp = frac_digits r1; r2 = after_frac r1
           in if ip = [] \<and> fp = [] then NaN
              else case exponent_part r2 of
                     None \<Rightarrow> NaN
                   | Some e \<Rightarrow> Fin (scale10 (decimal_value ip fp) e))"

text \<open>Hexadecimal, octal and binary integer literals (\<open>0x\<close>, \<open>0o\<close>, \<open>0b\<close>).\<close>

definition radix_digit :: "char \<Rightarrow> nat" where
  "radix_digit c =
     (let n = (of_char c :: nat) in
      if 48 \<le> n \<and> n \<le> 57 then n - 48
      else if 97 \<le> n \<and> n \<le> 102 then n - 87
      else if 65 \<le> n \<and> n \<le> 70 then n - 55
      else 16)"

definition radix_literal :: "nat \<Rightarrow> string \<Rightarrow> jsnum" where
  "radix_literal b ds =
     (if ds \<noteq> [] \<and> list_all (\<lambda>c. radix_digit c < b) ds
      then Fin (real (foldl (\<lambda>a c. b * a + radix_digit c) 0 ds))
      else NaN)"

text \<open>
  \<open>Number(s)\<close> on a string: white space is trimmed, the empty string is \<open>0\<close>, a
  string that is not a numeric literal is NaN.
\<close>

definition js_Number :: "string \<Rightarrow> jsnum" where
  "js_Number str =
     (case js_trim str of
        [] \<Rightarrow> Fin 0
      | c # t \<Rightarrow>
          if c = CHR ''0'' \<and> t \<noteq> [] \<and> (hd t = CHR ''x'' \<or> hd t = CHR ''X'') then radix_literal 16 (tl t)
          else if c = CHR ''0'' \<and> t \<noteq> [] \<and> (hd t = CHR ''o'' \<or> hd t = CHR ''O'') then radix_literal 8 (tl t)
          else if c = CHR ''0'' \<and> t \<noteq> [] \<and> (hd t = CHR ''b'' \<or> hd t = CHR ''B'') then radix_literal 2 (tl t)
          else if c = CHR ''+'' then str_unsigned_decimal t
          else if c = CHR ''-'' then jneg (str_unsigned_decimal t)
          else str_unsigned_decimal (c # t))"

subsection \<open>Cells\<close>

text \<open>
  A raw cell of a decoded sheet: \<open>null\<close>, \<open>undefined\<close> (a key the row does not
  have), a boolean, a number, a string, or a \<open>Date\<close> object, whose time value is a
  number of milliseconds or NaN (\<open>None\<close>).
\<close>

type_synonym jsdate = "int option"

datatype cell = CNull | CUndefined | CBool bool | CNum jsnum | CStr string | CDate jsdate

text \<open>
  \<^verbatim>\<open>
  function isNumericLike(v) {
    if (v == null) return false;
    if (typeof v === "number" && !Number.isNaN(v)) return true;
    if (typeof v === "string") {
      const s = v.trim().replace(/,/g, "");
      return s !== "" && !Number.isNaN(Number(s));
    }
    return false;
  }
  \<close>
\<close>

fun isNumericLike :: "cell \<Rightarrow> bool" where
  "isNumericLike CNull = False"
| "isNumericLike CUndefined = False"
| "isNumericLike (CNum n) = (n \<noteq> NaN)"
| "isNumericLike (CStr v) = (let s = remove_commas (js_trim v) in s \<noteq> [] \<and> js_Number s \<noteq> NaN)"
| "isNumericLike (CBool b) = False"
| "isNumericLike (CDate d) = False"

text \<open>
  The classifier in the words of the specification: true for finite numbers, and for
  strings that, trimmed and with the thousands separators stripped, are non-empty and
  parse as a finite number.
\<close>

fun spec_isNumericLike :: "cell \<Rightarrow> bool" where
  "spec_isNumericLike (CNum n) = is_finite n"
| "spec_isNumericLike (CStr v) =
     (let s = remove_commas (js_trim v) in s \<noteq> [] \<and> is_finite (js_Number s))"
| "spec_isNumericLike c = False"

text \<open>The cells that are, or parse as, an infinity.\<close>

fun is_infinite_cell :: "cell \<Rightarrow> bool" where
  "is_infinite_cell (CNum n) = (n = PInf \<or> n = NInf)"
| "is_infinite_cell (CStr v) =
     (let s = remove_commas (js_trim v) in s \<noteq> [] \<and> (js_Number s = PInf \<or> js_Number s = NInf))"
| "is_infinite_cell c = False"

text \<open>\<open>Number(String(b))\<close> is not needed: what the helpers do with a boolean is in \<open>String\<close>.\<close>

definition js_String_bool :: "bool \<Rightarrow> string" where
  "js_String_bool b = (if b then ''true'' else ''false'')"

text \<open>
  \<open>parseFloat(s)\<close>: leading white space is skipped and the longest prefix that is a
  decimal literal is read; NaN when there is none.
\<close>

definition exponent_prefix :: "string \<Rightarrow> int" where
  "exponent_prefix s =
     (case s of
        [] \<Rightarrow> 0
      | c # t \<Rightarrow>
          if c = CHR ''e'' \<or> c = CHR ''E'' then
            (let neg = (t \<noteq> [] \<and> hd t = CHR ''-'');
                 ds = takeWhile is_digit
                        (if t \<noteq> [] \<and> (hd t = CHR ''-'' \<or> hd t = CHR ''+'') then tl t else t)
             in if neg then - int (digits_val ds) else int (digits_val ds))
          else 0)"

definition js_parseFloat :: "string \<Rightarrow> jsnum" where
  "js_parseFloat str =
     (let s = js_trimStart str;
          neg = (s \<noteq> [] \<and> hd s = CHR ''-'');
          u = (if s \<noteq> [] \<and> (hd s = CHR ''-'' \<or> hd s = CHR ''+'') then tl s else s);
          ip = takeWhile is_digit u; r1 = dropWhile is_digit u;
          fp = frac_digits r1; r2 = after_frac r1;
          v = (if take 8 u = ''Infinity'' then PInf
               else if ip = [] \<and> fp = [] then NaN
               else Fin (scale10 (decimal_value ip fp) (exponent_prefix r2)))
      in if neg then jneg v else v)"

text \<open>The test \<open>/^-?\d+(\.\d+)?$/\<close>.\<close>

definition is_plain_number :: "string \<Rightarrow> bool" where
  "is_plain_number s =
     (let u = (if s \<noteq> [] \<and> hd s = CHR ''-'' then tl s else s);
          ip = takeWhile is_digit u; r = dropWhile is_digit u
      in ip \<noteq> [] \<and> (r = [] \<or> (hd r = CHR ''.'' \<and> tl r \<noteq> [] \<and> list_all is_digit (tl r))))"

text \<open>Printing of integers: \<open>String(n)\<close> and \<open>padStart\<close>.\<close>

definition digit_char :: "nat \<Rightarrow> char" where
  "digit_char n = char_of (48 + n)"

fun show_nat :: "nat \<Rightarrow> string" where
  "show_nat n = (if n < 10 then [digit_char n] else show_nat (n div 10) @ [digit_char (n mod 10)])"

declare show_nat.simps [simp del]

definition show_int :: "int \<Rightarrow> string" where
  "show_int i = (if i < 0 then CHR ''-'' # show_nat (nat (- i)) else show_nat (nat i))"

definition padStart :: "nat \<Rightarrow> char \<Rightarrow> string \<Rightarrow> string" where
  "padStart n c s = replicate (n - length s) c @ s"

subsection \<open>Dates\<close>

text \<open>
  The time value of a valid \<open>Date\<close> is an integer number of milliseconds since the
  epoch. The calendar functions are those of ECMA-262 (Day, TimeWithinDay, DayFromYear,
  YearFromTime, MonthFromTime, DateFromTime, MakeDay, MakeTime, MakeDate, TimeClip). The
  local time zone is a fixed offset \<open>tz\<close> in milliseconds: changes of offset within a
  zone (daylight saving) are not part of this model.
\<close>

definition msPerDay :: int where
  "msPerDay = 86400000"

definition Day :: "int \<Rightarrow> int" where
  "Day t = t div msPerDay"

definition TimeWithinDay :: "int \<Rightarrow> int" where
  "TimeWithinDay t = t mod msPerDay"

definition DayFromYear :: "int \<Rightarrow> int" where
  "DayFromYear y = 365 * (y - 1970) + (y - 1969) div 4 - (y - 1901) div 100 + (y - 1601) div 400"

text \<open>
  The year of a day number, the largest \<open>y\<close> with \<open>DayFromYear y \<le> d\<close>: an estimate
  from the mean length of a year, corrected by at most one.
\<close>

definition YearFromDay :: "int \<Rightarrow> int" where
  "YearFromDay d =
     (let y = 1970 + (400 * d) div 146097
      in if d < DayFromYear y then y - 1 else if DayFromYear (y + 1) \<le> d then y + 1 else y)"

definition InLeapYear :: "int \<Rightarrow> bool" where
  "InLeapYear y = (y mod 4 = 0 \<and> (y mod 100 \<noteq> 0 \<or> y mod 400 = 0))"

text \<open>The day within the year on which month \<open>m\<close> (0 to 11) starts.\<close>

definition month_start :: "bool \<Rightarrow> int \<Rightarrow> int" where
  "month_start leap m =
     (let l = (if leap then 1 else 0) in
      if m \<le> 0 then 0 else if m = 1 then 31 else if m = 2 then 59 + l else if m = 3 then 90 + l
      else if m = 4 then 120 + l else if m = 5 then 151 + l else if m = 6 then 181 + l
      else if m = 7 then 212 + l else if m = 8 then 243 + l else if m = 9 then 273 + l
      else if m = 10 then 304 + l else 334 + l)"

definition MonthFromDay :: "int \<Rightarrow> int" where
  "MonthFromDay d =
     (let y = YearFromDay d; n = d - DayFromYear y; leap = InLeapYear y in
      if n < month_start leap 1 then 0 else if n < month_start leap 2 then 1
      else if n < month_start leap 3 then 2 else if n < month_start leap 4 then 3
      else if n < month_start leap 5 then 4 else if n < month_start leap 6 then 5
      else if n < month_start leap 7 then 6 else if n < month_start leap 8 then 7
      else if n < month_start leap 9 then 8 else if n < month_start leap 10 then 9
      else if n < month_start leap 11 then 10 else 11)"

definition DateFromDay :: "int \<Rightarrow> int" where
  "DateFromDay d =
     (let y = YearFromDay d in d - DayFromYear y - month_start (InLeapYear y) (MonthFromDay d) + 1)"

definition MakeDay :: "int \<Rightarrow> int \<Rightarrow> int \<Rightarrow> int" where
  "MakeDay year month dt =
     (let ym = year + month div 12; mn = month mod 12
      in DayFromYear ym + month_start (InLeapYear ym) mn + dt - 1)"

definition MakeTime :: "int \<Rightarrow> int \<Rightarrow> int \<Rightarrow> int \<Rightarrow> int" where
  "MakeTime h m s ms = h * 3600000 + m * 60000 + s * 1000 + ms"

definition MakeDate :: "int \<Rightarrow> int \<Rightarrow> int" where
  "MakeDate day time = day * msPerDay + time"

definition TimeClip :: "int \<Rightarrow> jsdate" where
  "TimeClip t = (if \<bar>t\<bar> > 8640000000000000 then None else Some t)"

definition LocalTime :: "int \<Rightarrow> int \<Rightarrow> int" where
  "LocalTime tz t = t + tz"

definition UTC :: "int \<Rightarrow> int \<Rightarrow> int" where
  "UTC tz l = l - tz"

text \<open>\<open>ToIntegerOrInfinity\<close> on a finite value: truncation towards zero.\<close>

definition js_trunc :: "real \<Rightarrow> int" where
  "js_trunc r = (if r \<ge> 0 then \<lfloor>r\<rfloor> else \<lceil>r\<rceil>)"

text \<open>\<open>new Date(ms)\<close> on a number.\<close>

fun date_of_ms :: "jsnum \<Rightarrow> jsdate" where
  "date_of_ms (Fin r) = (if \<bar>r\<bar> > 8640000000000000 then None else Some (js_trunc r))"
| "date_of_ms n = None"

text \<open>
  \<open>new Date(y, m, d, H, M, S)\<close>, in local time: a year from 0 to 99 means 1900 to
  1999; any argument that is not finite gives an invalid date.
\<close>

fun new_Date_fields :: "int \<Rightarrow> jsnum \<Rightarrow> jsnum \<Rightarrow> jsnum \<Rightarrow> jsnum \<Rightarrow> jsnum \<Rightarrow> jsnum \<Rightarrow> jsdate" where
  "new_Date_fields tz (Fin y) (Fin m) (Fin d) (Fin H) (Fin M) (Fin S) =
     (let yi = js_trunc y;
          yr = (if 0 \<le> yi \<and> yi \<le> 99 then 1900 + yi else yi)
      in TimeClip (UTC tz (MakeDate (MakeDay yr (js_trunc m) (js_trunc d))
                                    (MakeTime (js_trunc H) (js_trunc M) (js_trunc S) 0))))"
| "new_Date_fields tz y m d H M S = None"

text \<open>\<open>getFullYear()\<close> and \<open>getMonth()\<close> of a valid date, in local time.\<close>

definition getFullYear :: "int \<Rightarrow> int \<Rightarrow> int" where
  "getFullYear tz t = YearFromDay (Day (LocalTime tz t))"

definition getMonth :: "int \<Rightarrow> int \<Rightarrow> int" where
  "getMonth tz t = MonthFromDay (Day (LocalTime tz t))"

text \<open>
  \<open>toISOString()\<close> of a valid date, in UTC: a year from 0 to 9999 is printed with four
  digits, any other year with a sign and six digits.
\<close>

definition iso_year :: "int \<Rightarrow> string" where
  "iso_year y =
     (if 0 \<le> y \<and> y \<le> 9999 then padStart 4 CHR ''0'' (show_nat (nat y))
      else (if y < 0 then CHR ''-'' else CHR ''+'') # padStart 6 CHR ''0'' (show_nat (nat \<bar>y\<bar>)))"

definition pad2 :: "int \<Rightarrow> string" where
  "pad2 n = padStart 2 CHR ''0'' (show_nat (nat n))"

definition iso_date :: "int \<Rightarrow> string" where
  "iso_date d = iso_year (YearFromDay d) @ ''-'' @ pad2 (MonthFromDay d + 1) @ ''-'' @ pad2 (DateFromDay d)"

definition iso_time :: "int \<Rightarrow> string" where
  "iso_time w =
     pad2 (w div 3600000) @ '':'' @ pad2 (w div 60000 mod 60) @ '':'' @ pad2 (w div 1000 mod 60)
     @ ''.'' @ padStart 3 CHR ''0'' (show_nat (nat (w mod 1000))) @ ''Z''"

definition toISOString :: "int \<Rightarrow> string" where
  "toISOString t = iso_date (Day t) @ ''T'' @ iso_time (TimeWithinDay t)"

text \<open>\<open>d.toISOString().slice(0, 10)\<close>: the key of a calendar day.\<close>

definition isoDay :: "int \<Rightarrow> string" where
  "isoDay t = take 10 (toISOString t)"

subsection \<open>The environment of the date coercion\<close>

text \<open>
  What \<open>coerceDate\<close> takes from outside the repository: the offset of the local time
  zone, the decoder \<open>XLSX.SSF.parse_date_code\<close> of spreadsheet serials (its result is
  \<open>null\<close> or an object with the fields y, m, d, H, M, S; a missing field is NaN here,
  which is falsy as \<open>undefined\<close> is), and the string parser of \<open>new Date(s)\<close>, which
  the language leaves to the implementation.
\<close>

record date_code =
  dc_y :: jsnum
  dc_m :: jsnum
  dc_d :: jsnum
  dc_H :: jsnum
  dc_M :: jsnum
  dc_S :: jsnum

record js_env =
  tz :: int
  parse_date_code :: "jsnum \<Rightarrow> date_code option"
  date_parse :: "string \<Rightarrow> jsdate"

text \<open>\<open>a || b\<close> on numbers: \<open>0\<close> and NaN are falsy.\<close>

definition truthy_num :: "jsnum \<Rightarrow> bool" where
  "truthy_num n = (n \<noteq> NaN \<and> n \<noteq> Fin 0)"

definition js_or :: "jsnum \<Rightarrow> jsnum \<Rightarrow> jsnum" where
  "js_or a b = (if truthy_num a then a else b)"

fun jfloor :: "jsnum \<Rightarrow> jsnum" where
  "jfloor (Fin r) = Fin (real_of_int \<lfloor>r\<rfloor>)"
| "jfloor n = n"

text \<open>
  \<^verbatim>\<open>
  if (typeof v === "number") {
    const dc = XLSX.SSF.parse_date_code(v);
    if (dc && dc.y) {
      return new Date(dc.y, (dc.m || 1) - 1, dc.d || 1, dc.H || 0, dc.M || 0, Math.floor(dc.S || 0));
    }
    if (!Number.isNaN(v)) {
      const ms = (v - 25569) * 86400 * 1000;
      const d = new Date(ms);
      return isNaN(+d) ? new Date(NaN) : d;
    }
    return new Date(NaN);
  }
  \<close>
\<close>

definition coerceDate_num :: "js_env \<Rightarrow> jsnum \<Rightarrow> jsdate" where
  "coerceDate_num env v =
     (let fallback =
            (if v \<noteq> NaN
             then date_of_ms (jmul (jmul (jsub v (Fin 25569)) (Fin 86400)) (Fin 1000))
             else None)
      in case parse_date_code env v of
           None \<Rightarrow> fallback
         | Some dc \<Rightarrow>
             if truthy_num (dc_y dc)
             then new_Date_fields (tz env) (dc_y dc) (jsub (js_or (dc_m dc) (Fin 1)) (Fin 1))
                    (js_or (dc_d dc) (Fin 1)) (js_or (dc_H dc) (Fin 0)) (js_or (dc_M dc) (Fin 0))
                    (jfloor (js_or (dc_S dc) (Fin 0)))
             else fallback)"

text \<open>
  The string path of \<open>coerceDate\<close>: trim; a plain number goes through the number path;
  then the implementation's date parser; last the number \<open>parseFloat\<close> finds.
\<close>

definition coerceDate_str :: "js_env \<Rightarrow> string \<Rightarrow> jsdate" where
  "coerceDate_str env str =
     (let s = js_trim str in
      if s = [] then None
      else if is_plain_number s then coerceDate_num env (js_Number s)
      else case date_parse env s of
             Some t \<Rightarrow> Some t
           | None \<Rightarrow>
               (let maybeNum = js_parseFloat s
                in if maybeNum \<noteq> NaN then coerceDate_num env maybeNum else None))"

fun coerceDate :: "js_env \<Rightarrow> cell \<Rightarrow> jsdate" where
  "coerceDate env CNull = None"
| "coerceDate env CUndefined = None"
| "coerceDate env (CDate d) = d"
| "coerceDate env (CNum n) = coerceDate_num env n"
| "coerceDate env (CStr s) = coerceDate_str env s"
| "coerceDate env (CBool b) = coerceDate_str env (js_String_bool b)"

definition isDateLike :: "js_env \<Rightarrow> cell \<Rightarrow> bool" where
  "isDateLike env v = (coerceDate env v \<noteq> None)"

section \<open>The series builder\<close>

text \<open>
  A row is an object: its own keys in the order of \<open>Object.keys\<close>, each with its cell.
  Reading a key the row does not have gives \<open>undefined\<close>.
\<close>

type_synonym row = "(string \<times> cell) list"

definition cell_at :: "row \<Rightarrow> string \<Rightarrow> cell" where
  "cell_at r k = (case map_of r k of None \<Rightarrow> CUndefined | Some c \<Rightarrow> c)"

record point =
  date :: int
  dateLabel :: string
  nav :: jsnum
  equity :: jsnum
  drawdown :: jsnum

text \<open>
  \<open>Number(String(rawNav).trim().replace(/,/g, ""))\<close>. A number prints as a string
  without commas or white space that \<open>Number\<close> reads back as the same number; the
  other kinds of cell print as text that is not a numeric literal.
\<close>

fun nav_of_cell :: "cell \<Rightarrow> jsnum" where
  "nav_of_cell (CNum n) = n"
| "nav_of_cell (CStr s) = js_Number (remove_commas (js_trim s))"
| "nav_of_cell c = NaN"

text \<open>
  The body of the first loop of \<open>toSeries\<close> up to the \<open>Map.set\<close>: the cleaned record of
  a row, or \<open>None\<close> where the loop says \<open>continue\<close>.
  \<^verbatim>\<open>
    const d = coerceDate(r[dateKey]);
    if (isNaN(+d)) continue;
    const rawNav = r[navKey];
    if (!isNumericLike(rawNav)) continue;
    const nav = Number(String(rawNav).trim().replace(/,/g, ""));
    if (Number.isNaN(nav)) continue;
  \<close>
\<close>

definition clean_row :: "js_env \<Rightarrow> string \<Rightarrow> string \<Rightarrow> row \<Rightarrow> (int \<times> jsnum) option" where
  "clean_row env dateKey navKey r =
     (case coerceDate env (cell_at r dateKey) of
        None \<Rightarrow> None
      | Some d \<Rightarrow>
          (let rawNav = cell_at r navKey in
           if \<not> isNumericLike rawNav then None
           else let v = nav_of_cell rawNav in
                if v = NaN then None else Some (d, v)))"

text \<open>
  The first loop: \<open>mapByDate\<close> is a \<open>Map\<close>, which keeps its keys in the order of their
  first insertion; \<open>set\<close> on a key it has replaces the value in place.
\<close>

fun collect :: "js_env \<Rightarrow> string \<Rightarrow> string \<Rightarrow> (string \<times> int \<times> jsnum) list \<Rightarrow> row list
    \<Rightarrow> (string \<times> int \<times> jsnum) list" where
  "collect env dateKey navKey mapByDate [] = mapByDate"
| "collect env dateKey navKey mapByDate (r # rs) =
     (case clean_row env dateKey navKey r of
        None \<Rightarrow> collect env dateKey navKey mapByDate rs
      | Some (d, v) \<Rightarrow>
          collect env dateKey navKey (AList.update (isoDay d) (d, v) mapByDate) rs)"

text \<open>
  The second loop, with its three variables \<open>equity\<close>, \<open>peak\<close> and \<open>prevNav\<close>
  (\<open>None\<close> for \<open>null\<close>).
\<close>

definition period_return :: "jsnum option \<Rightarrow> jsnum \<Rightarrow> jsnum" where
  "period_return prevNav cur =
     (case prevNav of
        None \<Rightarrow> Fin 0
      | Some p \<Rightarrow> if p \<noteq> Fin 0 then jsub (jdiv cur p) (Fin 1) else Fin 0)"

definition next_equity :: "jsnum \<Rightarrow> jsnum option \<Rightarrow> jsnum \<Rightarrow> jsnum" where
  "next_equity eq prevNav cur = jmul eq (jadd (Fin 1) (period_return prevNav cur))"

fun walk :: "jsnum \<Rightarrow> jsnum \<Rightarrow> jsnum option \<Rightarrow> (int \<times> jsnum) list \<Rightarrow> point list" where
  "walk eq peak prevNav [] = []"
| "walk eq peak prevNav ((d, n) # rest) =
     (let eq' = next_equity eq prevNav n;
          peak' = jmax peak eq';
          dd = jsub (jdiv eq' peak') (Fin 1)
      in \<lparr>date = d, dateLabel = isoDay d, nav = n, equity = toFixed2 eq',
          drawdown = toFixed2 (jmul dd (Fin 100))\<rparr>
         # walk eq' peak' (Some n) rest)"

text \<open>The records of \<open>clean\<close>: the values of the map, sorted by time (the sort is stable).\<close>

definition clean_records :: "js_env \<Rightarrow> string \<Rightarrow> string \<Rightarrow> row list \<Rightarrow> (int \<times> jsnum) list" where
  "clean_records env dateKey navKey rows =
     sort_key fst (map snd (collect env dateKey navKey [] rows))"

text \<open>
  \<open>toSeries(rows, dateKey, navKey)\<close>. A key is \<open>null\<close> (\<open>None\<close>) or a string; the
  empty string is falsy as \<open>null\<close> is.
\<close>

definition falsy_key :: "string option \<Rightarrow> bool" where
  "falsy_key k = (k = None \<or> k = Some [])"

definition toSeries :: "js_env \<Rightarrow> row list \<Rightarrow> string option \<Rightarrow> string option \<Rightarrow> point list" where
  "toSeries env rows dateKey navKey =
     (if rows = [] \<or> falsy_key dateKey \<or> falsy_key navKey then []
      else let clean = clean_records env (the dateKey) (the navKey) rows
           in if clean = [] then [] else walk (Fin 100) (Fin 100) None clean)"

text \<open>
  For the statements about the builder: the cleaned records of the rows the first loop
  does not skip, in row order; the condition under which the code skips a row, and the
  condition the specification gives for it; and the values the variable \<open>equity\<close>
  takes in the second loop.
\<close>

definition kept_rows :: "js_env \<Rightarrow> string \<Rightarrow> string \<Rightarrow> row list \<Rightarrow> (int \<times> jsnum) list" where
  "kept_rows env dateKey navKey rows = List.map_filter (clean_row env dateKey navKey) rows"

definition skipped :: "js_env \<Rightarrow> string \<Rightarrow> string \<Rightarrow> row \<Rightarrow> bool" where
  "skipped env dateKey navKey r =
     (coerceDate env (cell_at r dateKey) = None \<or> \<not> isNumericLike (cell_at r navKey))"

definition spec_skipped :: "js_env \<Rightarrow> string \<Rightarrow> string \<Rightarrow> row \<Rightarrow> bool" where
  "spec_skipped env dateKey navKey r =
     (coerceDate env (cell_at r dateKey) = None \<or> \<not> isNumericLike (cell_at r navKey)
      \<or> \<not> is_finite (nav_of_cell (cell_at r navKey)))"







text \<open>
  An environment for examples: the UTC zone, a serial decoder that returns \<open>null\<close> and
  a date parser that rejects every string, so that a number in a date cell goes through
  the day-count fallback of \<open>coerceDate\<close>. (For a whole serial number from 61 on, in
  the UTC zone, the decoder of the library and the fallback give the same instant; a
  negative serial the decoder rejects.)
\<close>

definition utc_env :: js_env where
  "utc_env = \<lparr>tz = 0, parse_date_code = (\<lambda>n. None), date_parse = (\<lambda>s. None)\<rparr>"

text \<open>
  Four rows: the first and the third fall on 2023-01-01 (at 00:00 and at 01:00 UTC), the
  second on 2023-02-01, the fourth has an invalid date.
\<close>

definition rows_same_day :: "row list" where
  "rows_same_day =
     [[(''d'', CDate (Some 1672531200000)), (''v'', CStr ''100'')],
      [(''d'', CDate (Some 1675209600000)), (''v'', CStr ''110'')],
      [(''d'', CDate (Some 1672534800000)), (''v'', CStr ''1,05'')],
      [(''d'', CDate None), (''v'', CStr ''7'')]]"





section \<open>Column inference\<close>

record score =
  key :: string
  dateCount :: nat
  numCount :: nat

text \<open>
  The counting loop of \<open>detectColumns\<close> for one key and one classifier:
  \<^verbatim>\<open>
    for (let i = 0; i < sampleSize; i++) {
      const v = rows[i][k];
      if (isDateLike(v)) dateCount++;
      if (isNumericLike(v)) numCount++;
    }
  \<close>
\<close>

definition count_in :: "(cell \<Rightarrow> bool) \<Rightarrow> row list \<Rightarrow> string \<Rightarrow> nat" where
  "count_in P sample k = length (filter (\<lambda>r. P (cell_at r k)) sample)"

definition score_of :: "js_env \<Rightarrow> row list \<Rightarrow> string \<Rightarrow> score" where
  "score_of env sample k =
     \<lparr>key = k, dateCount = count_in (isDateLike env) sample k,
      numCount = count_in isNumericLike sample k\<rparr>"

text \<open>
  \<open>Math.ceil(sampleSize * 0.6)\<close>. The sample size is at most 50; for such sizes the
  rounding of the product in binary64 does not move it across an integer, so the ceiling
  is that of the exact product.
\<close>

definition threshold_of :: "nat \<Rightarrow> nat" where
  "threshold_of sampleSize = nat \<lceil>real sampleSize * 6 / 10\<rceil>"

text \<open>
  The choice of one key, for the count \<open>cnt\<close> (\<open>dateCount\<close> or \<open>numCount\<close>). The
  sort of JavaScript is stable, as \<open>sort_key\<close> is; the comparator \<open>b.cnt - a.cnt\<close> puts
  the highest count first.
  \<^verbatim>\<open>
    const dateCandidates = scores.filter(s => s.dateCount >= threshold)
                                 .sort((a,b) => b.dateCount - a.dateCount);
    let dateKey = dateCandidates.length ? dateCandidates[0].key : null;
    if (!dateKey) {
      const bestDate = scores.slice().sort((a,b) => b.dateCount - a.dateCount)[0];
      if (bestDate && bestDate.dateCount > 0) dateKey = bestDate.key;
    }
  \<close>
\<close>

definition by_count_desc :: "(score \<Rightarrow> nat) \<Rightarrow> score list \<Rightarrow> score list" where
  "by_count_desc cnt scores = sort_key (\<lambda>s. - int (cnt s)) scores"

definition choose_key :: "(score \<Rightarrow> nat) \<Rightarrow> nat \<Rightarrow> score list \<Rightarrow> string option" where
  "choose_key cnt threshold scores =
     (let candidates = by_count_desc cnt (filter (\<lambda>s. threshold \<le> cnt s) scores);
          k = (case candidates of [] \<Rightarrow> None | c # _ \<Rightarrow> Some (key c))
      in if falsy_key k then
           (case by_count_desc cnt scores of
              [] \<Rightarrow> k
            | best # _ \<Rightarrow> if cnt best > 0 then Some (key best) else k)
         else k)"

definition detectColumns :: "js_env \<Rightarrow> row list \<Rightarrow> string option \<times> string option" where
  "detectColumns env rows =
     (if rows = [] then (None, None)
      else let sampleSize = min (length rows) 50;
               keys = map fst (hd rows);
               scores = map (score_of env (take sampleSize rows)) keys;
               threshold = threshold_of sampleSize
           in (choose_key dateCount threshold scores, choose_key numCount threshold scores))"

subsection \<open>The selection in the words of the specification\<close>

text \<open>
  Among the columns whose count reaches the threshold, the one with the highest count,
  the first in key order on a tie; if none reaches it, the column with the highest count
  when that count is not zero (again the first on a tie); otherwise none.
\<close>

definition highest :: "(string \<Rightarrow> nat) \<Rightarrow> string list \<Rightarrow> nat" where
  "highest cnt ks = foldr (\<lambda>k m. max (cnt k) m) ks 0"

definition first_highest :: "(string \<Rightarrow> nat) \<Rightarrow> string list \<Rightarrow> string option" where
  "first_highest cnt ks = find (\<lambda>k. cnt k = highest cnt ks) ks"

definition spec_select :: "(string \<Rightarrow> nat) \<Rightarrow> nat \<Rightarrow> string list \<Rightarrow> string option" where
  "spec_select cnt threshold ks =
     (if filter (\<lambda>k. threshold \<le> cnt k) ks \<noteq> []
      then first_highest cnt (filter (\<lambda>k. threshold \<le> cnt k) ks)
      else if 0 < highest cnt ks then first_highest cnt ks
      else None)"

definition spec_detectColumns :: "js_env \<Rightarrow> row list \<Rightarrow> string option \<times> string option" where
  "spec_detectColumns env rows =
     (if rows = [] then (None, None)
      else let sample = take (min 50 (length rows)) rows;
               ks = map fst (hd rows);
               threshold = nat \<lceil>6 / 10 * real (length sample)\<rceil>
           in (spec_select (count_in (isDateLike env) sample) threshold ks,
               spec_select (count_in isNumericLike sample) threshold ks))"

text \<open>
  A sheet of five rows in which one cell of column \<open>a\<close> is a date and no other cell
  is date-like or numeric-like.
\<close>

definition rows_weak_date :: "row list" where
  "rows_weak_date =
     [[(''a'', CStr ''x''), (''b'', CStr ''n/a''), (''c'', CNull)],
      [(''a'', CDate (Some 0)), (''b'', CStr ''n/a''), (''c'', CNull)],
      [(''a'', CStr ''y''), (''b'', CStr ''n/a''), (''c'', CBool True)],
      [(''a'', CNull), (''b'', CStr ''n/a''), (''c'', CNull)],
      [(''a'', CNull), (''b'', CStr ''n/a''), (''c'', CNull)]]"

section \<open>Trailing returns\<close>















subsection \<open>The lookback in the words of the specification\<close>





section \<open>Monthly returns\<close>

text \<open>
  The rows \<open>{ year, month, nav, ret }\<close> of \<open>monthlyReturns\<close> and the records of its
  table: \<open>Year\<close>, the twelve month slots from \<open>Jan\<close> to \<open>Dec\<close>, and \<open>YTD\<close>. A return
  is a number or \<open>null\<close> (\<open>None\<close>).
\<close>

record month_row =
  r_year :: int
  r_month :: int
  r_nav :: "jsnum option"
  r_ret :: "jsnum option"

record year_rec =
  Year :: int
  slots :: "jsnum option list"
  YTD :: "jsnum option"

text \<open>The key \<open>`${y}-${String(m).padStart(2, "0")}`\<close>.\<close>

definition month_key :: "int \<Rightarrow> int \<Rightarrow> string" where
  "month_key y m = show_int y @ ''-'' @ padStart 2 CHR ''0'' (show_int m)"

text \<open>\<open>s.split("-")\<close>\<close>

fun split_dash :: "string \<Rightarrow> string list" where
  "split_dash [] = [[]]"
| "split_dash (c # cs) =
     (if c = CHR ''-'' then [] # split_dash cs
      else case split_dash cs of
             [] \<Rightarrow> [[c]]
           | p # ps \<Rightarrow> (c # p) # ps)"

text \<open>
  \<open>Number(part)\<close> for a part of a key. The parts are strings of decimal digits (the
  first is empty when the year is negative), on which \<open>Number\<close> is an integer; a part
  that is missing is \<open>undefined\<close>, and a value that is not an integer is taken as 0.
\<close>

definition number_of_part :: "string option \<Rightarrow> int" where
  "number_of_part part =
     (case part of
        None \<Rightarrow> 0
      | Some s \<Rightarrow> (case js_Number s of Fin r \<Rightarrow> \<lfloor>r\<rfloor> | _ \<Rightarrow> 0))"

definition part_at :: "string list \<Rightarrow> nat \<Rightarrow> string option" where
  "part_at parts i = (if i < length parts then Some (parts ! i) else None)"

text \<open>
  The first loop of \<open>monthlyReturns\<close>: the last value of every month, in a \<open>Map\<close>.
  \<^verbatim>\<open>
    for (const p of series) {
      const y = p.date.getFullYear();
      const m = p.date.getMonth() + 1;
      const key = `${y}-${String(m).padStart(2, "0")}`;
      lastByMonth.set(key, { year: y, month: m, nav: p.nav });
    }
  \<close>
\<close>

fun last_by_month :: "js_env \<Rightarrow> (string \<times> int \<times> int \<times> jsnum) list \<Rightarrow> point list
    \<Rightarrow> (string \<times> int \<times> int \<times> jsnum) list" where
  "last_by_month env lastByMonth [] = lastByMonth"
| "last_by_month env lastByMonth (p # ps) =
     (let y = getFullYear (tz env) (date p);
          m = getMonth (tz env) (date p) + 1
      in last_by_month env (AList.update (month_key y m) (y, m, nav p) lastByMonth) ps)"

definition navLookup :: "(string \<times> int \<times> int \<times> jsnum) list \<Rightarrow> string \<Rightarrow> jsnum option" where
  "navLookup lastByMonth k = map_option (\<lambda>v. snd (snd v)) (map_of lastByMonth k)"

text \<open>
  The second loop: one row for every key.
  \<^verbatim>\<open>
    const [yStr, mStr] = key.split("-");
    const y = Number(yStr);
    const m = Number(mStr);
    const val = navLookup(key);
    const prevKey = m > 1 ? `${y}-${String(m - 1).padStart(2, "0")}` : `${y - 1}-12`;
    const prevVal = navLookup(prevKey);
    const mom = (prevVal != null && prevVal !== 0) ? (val / prevVal - 1) : null;
    rows.push({ year: y, month: m, nav: val, ret: mom });
  \<close>
\<close>

text \<open>A value that may be \<open>null\<close>, as an operand of arithmetic: \<open>null\<close> counts as 0.\<close>

definition num_of_nullable :: "jsnum option \<Rightarrow> jsnum" where
  "num_of_nullable v = (case v of None \<Rightarrow> Fin 0 | Some n \<Rightarrow> n)"

definition row_of_key :: "(string \<times> int \<times> int \<times> jsnum) list \<Rightarrow> string \<Rightarrow> month_row" where
  "row_of_key lastByMonth k =
     (let parts = split_dash k;
          y = number_of_part (part_at parts 0);
          m = number_of_part (part_at parts 1);
          val = navLookup lastByMonth k;
          prevKey = (if m > 1 then show_int y @ ''-'' @ padStart 2 CHR ''0'' (show_int (m - 1))
                     else show_int (y - 1) @ ''-12'');
          mom = (case navLookup lastByMonth prevKey of
                   None \<Rightarrow> None
                 | Some prevVal \<Rightarrow>
                     if prevVal \<noteq> Fin 0
                     then Some (jsub (jdiv (num_of_nullable val) prevVal) (Fin 1)) else None)
      in \<lparr>r_year = y, r_month = m, r_nav = val, r_ret = mom\<rparr>)"

text \<open>
  The record of one year.
  \<^verbatim>\<open>
    months.forEach((name, idx) => {
      const m = idx + 1;
      const rr = rows.find(r => r.year === y && r.month === m);
      const v = rr ? rr.ret : null;
      rec[name] = v;
      if (v != null) { anyMonth = true; ytdAcc *= (1 + v); }
    });
    rec["YTD"] = anyMonth ? (ytdAcc - 1) : null;
  \<close>
\<close>

definition slot_of :: "month_row list \<Rightarrow> int \<Rightarrow> int \<Rightarrow> jsnum option" where
  "slot_of rows y m =
     (case find (\<lambda>r. r_year r = y \<and> r_month r = m) rows of
        None \<Rightarrow> None
      | Some rr \<Rightarrow> r_ret rr)"

fun ytd_loop :: "jsnum \<Rightarrow> bool \<Rightarrow> jsnum option list \<Rightarrow> jsnum \<times> bool" where
  "ytd_loop ytdAcc anyMonth [] = (ytdAcc, anyMonth)"
| "ytd_loop ytdAcc anyMonth (None # vs) = ytd_loop ytdAcc anyMonth vs"
| "ytd_loop ytdAcc anyMonth (Some v # vs) = ytd_loop (jmul ytdAcc (jadd (Fin 1) v)) True vs"

definition year_record :: "month_row list \<Rightarrow> int \<Rightarrow> year_rec" where
  "year_record rows y =
     (let acc = ytd_loop (Fin 1) False (map (slot_of rows y) (map int [1 ..< 13]))
      in \<lparr>Year = y, slots = map (slot_of rows y) (map int [1 ..< 13]),
          YTD = (if snd acc then Some (jsub (fst acc) (Fin 1)) else None)\<rparr>)"

text \<open>
  \<open>[...new Set(xs)]\<close> keeps the first occurrence of every element; the sort with
  \<open>(a, b) => b - a\<close> is descending.
\<close>

definition uniq :: "int list \<Rightarrow> int list" where
  "uniq xs = rev (remdups (rev xs))"

definition month_names :: "string list" where
  "month_names = [''Jan'', ''Feb'', ''Mar'', ''Apr'', ''May'', ''Jun'', ''Jul'', ''Aug'', ''Sep'',
                  ''Oct'', ''Nov'', ''Dec'']"

definition month_rows :: "js_env \<Rightarrow> point list \<Rightarrow> month_row list" where
  "month_rows env series =
     (let lastByMonth = last_by_month env [] series;
          keys = sort (map fst lastByMonth)
      in map (row_of_key lastByMonth) keys)"

definition monthlyReturns :: "js_env \<Rightarrow> point list \<Rightarrow> year_rec list \<times> string list" where
  "monthlyReturns env series =
     (if series = [] then ([], [])
      else let rows = month_rows env series;
               years = sort_key (\<lambda>y. - y) (uniq (map r_year rows))
           in (map (year_record rows) years, month_names))"

subsection \<open>The monthly table in the words of the specification\<close>

text \<open>
  The bucket of a point is its year and month; the representative value of a bucket is
  the value of its last point (in a series ascending by date, its last-dated point); the
  return of a month is its representative value over that of the calendar month before
  it, less 1, and there is none when either month has no point or the month before has
  the value 0; the years are those of the points, in descending order; the year-to-date
  of a year compounds the returns its months have, in the order of the months, and there
  is none when no month has a return.
\<close>

definition bucket_of :: "js_env \<Rightarrow> point \<Rightarrow> int \<times> int" where
  "bucket_of env p = (getFullYear (tz env) (date p), getMonth (tz env) (date p) + 1)"

definition spec_representative :: "js_env \<Rightarrow> point list \<Rightarrow> int \<times> int \<Rightarrow> jsnum option" where
  "spec_representative env series b =
     (if filter (\<lambda>p. bucket_of env p = b) series = [] then None
      else Some (nav (last (filter (\<lambda>p. bucket_of env p = b) series))))"

definition spec_prev_month :: "int \<times> int \<Rightarrow> int \<times> int" where
  "spec_prev_month b = (if snd b = 1 then (fst b - 1, 12) else (fst b, snd b - 1))"

definition spec_month_return :: "js_env \<Rightarrow> point list \<Rightarrow> int \<times> int \<Rightarrow> jsnum option" where
  "spec_month_return env series b =
     (case spec_representative env series b of
        None \<Rightarrow> None
      | Some v \<Rightarrow>
          (case spec_representative env series (spec_prev_month b) of
             None \<Rightarrow> None
           | Some pv \<Rightarrow> if pv = Fin 0 then None else Some (jsub (jdiv v pv) (Fin 1))))"

definition spec_years :: "js_env \<Rightarrow> point list \<Rightarrow> int list" where
  "spec_years env series = rev (sort (remdups (map (\<lambda>p. fst (bucket_of env p)) series)))"

definition spec_ytd :: "jsnum option list \<Rightarrow> jsnum option" where
  "spec_ytd vs =
     (if List.map_filter id vs = [] then None
      else Some (jsub (foldl (\<lambda>a r. jmul a (jadd (Fin 1) r)) (Fin 1) (List.map_filter id vs)) (Fin 1)))"

definition spec_year_record :: "js_env \<Rightarrow> point list \<Rightarrow> int \<Rightarrow> year_rec" where
  "spec_year_record env series y =
     \<lparr>Year = y,
      slots = map (\<lambda>m. spec_month_return env series (y, m)) (map int [1 ..< 13]),
      YTD = spec_ytd (map (\<lambda>m. spec_month_return env series (y, m)) (map int [1 ..< 13]))\<rparr>"

definition spec_monthlyReturns :: "js_env \<Rightarrow> point list \<Rightarrow> year_rec list \<times> string list" where
  "spec_monthlyReturns env series =
     (if series = [] then ([], [])
      else (map (spec_year_record env series) (spec_years env series), month_names))"

text \<open>
  A sheet with two rows in the year -1 (2 BC), on the 15th of November and on the 15th of
  December, with the values 100 and 110, and the series built from it.
\<close>

definition rows_year_minus_1 :: "row list" where
  "rows_year_minus_1 =
     [[(''Date'', CNum (Fin (- 694006))), (''NAV'', CNum (Fin 100))],
      [(''Date'', CNum (Fin (- 693976))), (''NAV'', CNum (Fin 110))]]"

definition series_year_minus_1 :: "point list" where
  "series_year_minus_1 = toSeries utc_env rows_year_minus_1 (Some ''Date'') (Some ''NAV'')"

section \<open>Lemmas shared by the proofs\<close>

subsection \<open>The year of a day\<close>

lemma div_lb: "(0::int) < k \<Longrightarrow> k * (x div k) \<le> x"
  using mult_div_mod_eq [of k x] pos_mod_sign [of k x] by linarith

lemma div_ub: "(0::int) < k \<Longrightarrow> x < k * (x div k) + k"
  using mult_div_mod_eq [of k x] pos_mod_bound [of k x] by linarith

lemma DayFromYear_bounds:
  "146097 * (y - 1970) - 506 \<le> 400 * DayFromYear y"
  "400 * DayFromYear y \<le> 146097 * (y - 1970) + 589"
proof -
  define a where "a = (y - 1969) div 4"
  define b where "b = (y - 1901) div 100"
  define c where "c = (y - 1601) div 400"
  have a: "4 * a \<le> y - 1969" "y - 1969 < 4 * a + 4"
    unfolding a_def by (rule div_lb, simp) (rule div_ub, simp)
  have b: "100 * b \<le> y - 1901" "y - 1901 < 100 * b + 100"
    unfolding b_def by (rule div_lb, simp) (rule div_ub, simp)
  have c: "400 * c \<le> y - 1601" "y - 1601 < 400 * c + 400"
    unfolding c_def by (rule div_lb, simp) (rule div_ub, simp)
  have d: "DayFromYear y = 365 * (y - 1970) + a - b + c"
    by (simp add: DayFromYear_def a_def b_def c_def)
  show "146097 * (y - 1970) - 506 \<le> 400 * DayFromYear y" unfolding d using a b c by simp
  show "400 * DayFromYear y \<le> 146097 * (y - 1970) + 589" unfolding d using a b c by simp
qed

text \<open>\<open>YearFromDay d\<close> is the year of ECMA-262: the largest \<open>y\<close> with \<open>DayFromYear y \<le> d\<close>.\<close>

lemma YearFromDay_correct:
  "DayFromYear (YearFromDay d) \<le> d \<and> d < DayFromYear (YearFromDay d + 1)"
proof -
  define q where "q = (400 * d) div 146097"
  have q: "146097 * q \<le> 400 * d" "400 * d < 146097 * q + 146097"
    unfolding q_def by (rule div_lb, simp) (rule div_ub, simp)
  have lo: "DayFromYear (1969 + q) \<le> d"
    using DayFromYear_bounds(2) [of "1969 + q"] q by simp
  have hi: "d < DayFromYear (1972 + q)"
    using DayFromYear_bounds(1) [of "1972 + q"] q by simp
  have e: "1970 + q - 1 = 1969 + q" "1970 + q + 1 + 1 = 1972 + q" by simp_all
  show ?thesis
    unfolding YearFromDay_def q_def [symmetric] Let_def using lo hi
    by (auto simp: e add.commute)
qed

subsection \<open>The map of the first loop\<close>

lemma collect_fold:
  "collect env dk nk m rows = fold (\<lambda>x. AList.update (isoDay (fst x)) x) (kept_rows env dk nk rows) m"
  by (induction rows arbitrary: m) (auto simp: kept_rows_def List.map_filter_simps split: option.splits)

lemma fold_update_distinct:
  "distinct (map fst m) \<Longrightarrow> distinct (map fst (fold (\<lambda>x. AList.update (f x) x) xs m))"
  by (induction xs arbitrary: m) (simp_all add: distinct_update)

lemma fold_update_map_of:
  "map_of (fold (\<lambda>x. AList.update (f x) x) xs m) k =
     (if filter (\<lambda>x. f x = k) xs = [] then map_of m k else Some (last (filter (\<lambda>x. f x = k) xs)))"
proof (induction xs rule: rev_induct)
  case Nil
  then show ?case by simp
next
  case (snoc x xs)
  then show ?case by (simp add: update_conv')
qed

lemma in_set_update:
  "(k, v) \<in> set (AList.update k' v' m) \<Longrightarrow> (k, v) = (k', v') \<or> (k, v) \<in> set m"
  by (induction m) (auto split: if_splits)

lemma fold_update_keys:
  "(\<And>k v. (k, v) \<in> set m \<Longrightarrow> k = f v) \<Longrightarrow> (k, v) \<in> set (fold (\<lambda>x. AList.update (f x) x) xs m) \<Longrightarrow> k = f v"
proof (induction xs arbitrary: m)
  case Nil
  then show ?case by simp
next
  case (Cons x xs)
  have "\<And>k v. (k, v) \<in> set (AList.update (f x) x m) \<Longrightarrow> k = f v"
    using Cons.prems(1) by (auto dest!: in_set_update)
  from Cons.IH [OF this] Cons.prems(2) show ?case by simp
qed

lemma fold_update_values:
  "v \<in> snd ` set (fold (\<lambda>x. AList.update (f x) x) xs []) \<longleftrightarrow>
     v \<in> set xs \<and> last (filter (\<lambda>x. f x = f v) xs) = v"
proof -
  let ?al = "fold (\<lambda>x. AList.update (f x) x) xs []"
  have d: "distinct (map fst ?al)" by (rule fold_update_distinct) simp
  have key: "\<And>k v. (k, v) \<in> set ?al \<Longrightarrow> k = f v"
    by (rule fold_update_keys [where m = "[]"]) auto
  have "v \<in> snd ` set ?al \<longleftrightarrow> map_of ?al (f v) = Some v"
    using d key by (force simp: map_of_eq_Some_iff)
  also have "\<dots> \<longleftrightarrow> filter (\<lambda>x. f x = f v) xs \<noteq> [] \<and> last (filter (\<lambda>x. f x = f v) xs) = v"
    by (simp add: fold_update_map_of)
  also have "\<dots> \<longleftrightarrow> v \<in> set xs \<and> last (filter (\<lambda>x. f x = f v) xs) = v"
  proof
    assume a: "filter (\<lambda>x. f x = f v) xs \<noteq> [] \<and> last (filter (\<lambda>x. f x = f v) xs) = v"
    then have "last (filter (\<lambda>x. f x = f v) xs) \<in> set (filter (\<lambda>x. f x = f v) xs)"
      by (intro last_in_set) simp
    with a show "v \<in> set xs \<and> last (filter (\<lambda>x. f x = f v) xs) = v" by simp
  next
    assume a: "v \<in> set xs \<and> last (filter (\<lambda>x. f x = f v) xs) = v"
    then have "v \<in> set (filter (\<lambda>x. f x = f v) xs)" by simp
    then have "filter (\<lambda>x. f x = f v) xs \<noteq> []" by (metis empty_iff empty_set)
    with a show "filter (\<lambda>x. f x = f v) xs \<noteq> [] \<and> last (filter (\<lambda>x. f x = f v) xs) = v" by simp
  qed
  finally show ?thesis .
qed








lemma distinct_of_map: "distinct (map f xs) \<Longrightarrow> distinct xs"
  by (simp add: distinct_map)


lemma distinct_map_sort_key: "distinct (map g (sort_key f xs)) = distinct (map g xs)"
  by (simp add: distinct_map)

lemma clean_records_props:
  "sorted_wrt (<) (map fst (clean_records env dk nk rows))"
  "distinct (map (\<lambda>x. isoDay (fst x)) (clean_records env dk nk rows))"
  "set (clean_records env dk nk rows) =
     {x \<in> set (kept_rows env dk nk rows).
        last (filter (\<lambda>y. isoDay (fst y) = isoDay (fst x)) (kept_rows env dk nk rows)) = x}"
proof -
  let ?f = "\<lambda>x :: int \<times> jsnum. isoDay (fst x)"
  let ?al = "fold (\<lambda>x. AList.update (?f x) x) (kept_rows env dk nk rows) []"
  have al: "collect env dk nk [] rows = ?al" by (rule collect_fold)
  have d: "distinct (map fst ?al)" by (rule fold_update_distinct) simp
  have key: "\<And>k v. (k, v) \<in> set ?al \<Longrightarrow> k = ?f v"
    by (rule fold_update_keys [where m = "[]"]) auto
  have "map fst ?al = map ?f (map snd ?al)" using key by auto
  with d have dv: "distinct (map ?f (map snd ?al))" by simp
  show 2: "distinct (map ?f (clean_records env dk nk rows))"
    unfolding clean_records_def al by (rule iffD2 [OF distinct_map_sort_key dv])
  have "map ?f (clean_records env dk nk rows) = map isoDay (map fst (clean_records env dk nk rows))"
    by simp
  with 2 have "distinct (map isoDay (map fst (clean_records env dk nk rows)))" by simp
  then have "distinct (map fst (clean_records env dk nk rows))" by (rule distinct_of_map)
  moreover have "sorted (map fst (clean_records env dk nk rows))"
    unfolding clean_records_def by (rule sorted_sort_key)
  ultimately show "sorted_wrt (<) (map fst (clean_records env dk nk rows))"
    by (simp add: strict_sorted_iff)
  show "set (clean_records env dk nk rows) =
     {x \<in> set (kept_rows env dk nk rows).
        last (filter (\<lambda>y. isoDay (fst y) = isoDay (fst x)) (kept_rows env dk nk rows)) = x}"
    unfolding clean_records_def al using fold_update_values [of _ ?f "kept_rows env dk nk rows"]
    by auto
qed

lemma toSeries_unfold:
  "\<not> (rows = [] \<or> falsy_key dateKey \<or> falsy_key navKey) \<Longrightarrow>
   toSeries env rows dateKey navKey
     = walk (Fin 100) (Fin 100) None (clean_records env (the dateKey) (the navKey) rows)"
  by (simp add: toSeries_def Let_def)

lemma walk_point:
  "p \<in> set (walk eq pk prev cl) \<Longrightarrow> dateLabel p = isoDay (date p) \<and> (date p, nav p) \<in> set cl"
proof (induction cl arbitrary: eq pk prev)
  case Nil
  then show ?case by simp
next
  case (Cons a cl)
  obtain d n where a: "a = (d, n)" by (cases a)
  from Cons.prems consider
    "p = \<lparr>date = d, dateLabel = isoDay d, nav = n, equity = toFixed2 (next_equity eq prev n),
          drawdown = toFixed2 (jmul (jsub (jdiv (next_equity eq prev n) (jmax pk (next_equity eq prev n))) (Fin 1)) (Fin 100))\<rparr>"
    | "p \<in> set (walk (next_equity eq prev n) (jmax pk (next_equity eq prev n)) (Some n) cl)"
    unfolding a by (auto simp: Let_def)
  then show ?case
  proof cases
    case 1
    then show ?thesis unfolding a by simp
  next
    case 2
    from Cons.IH [OF this] show ?thesis by simp
  qed
qed


subsection \<open>The rows the first loop keeps\<close>

lemma isNumericLike_nav: "isNumericLike c \<Longrightarrow> nav_of_cell c \<noteq> NaN"
  by (cases c) (simp_all add: Let_def)

lemma clean_row_None: "clean_row env dk nk r = None \<longleftrightarrow> skipped env dk nk r"
  by (auto simp: clean_row_def skipped_def Let_def isNumericLike_nav split: option.splits)

lemma clean_row_Some:
  "clean_row env dk nk r = Some (d, v) \<longleftrightarrow>
     coerceDate env (cell_at r dk) = Some d \<and> isNumericLike (cell_at r nk) \<and> v = nav_of_cell (cell_at r nk)"
  by (auto simp: clean_row_def Let_def isNumericLike_nav split: option.splits)

lemma kept_rows_filter:
  "kept_rows env dk nk (filter (\<lambda>r. \<not> skipped env dk nk r) rows) = kept_rows env dk nk rows"
  by (induction rows)
    (auto simp: kept_rows_def List.map_filter_simps clean_row_None [symmetric] split: option.splits)

lemma kept_rows_set:
  "x \<in> set (kept_rows env dk nk rows) \<longleftrightarrow> (\<exists>r \<in> set rows. clean_row env dk nk r = Some x)"
  by (induction rows) (auto simp: kept_rows_def List.map_filter_simps split: option.splits)

lemma clean_records_kept:
  "kept_rows env dk nk rows = kept_rows env dk nk rows' \<Longrightarrow>
   clean_records env dk nk rows = clean_records env dk nk rows'"
  by (simp add: clean_records_def collect_fold)

lemma clean_records_Nil: "kept_rows env dk nk rows = [] \<Longrightarrow> clean_records env dk nk rows = []"
  by (simp add: clean_records_def collect_fold)

subsection \<open>The second loop\<close>

















lemma toFixed2_zero: "toFixed2 (Fin 0) = Fin 0"
  by simp

lemma toFixed2_100: "toFixed2 (Fin 100) = Fin 100"
  by simp




















subsection \<open>The example series\<close>



subsection \<open>The first element of a stable sort\<close>

lemma hd_sort_key:
  assumes "xs \<noteq> []"
  shows "hd (sort_key f xs) = hd (filter (\<lambda>y. f y = Min (f ` set xs)) xs)"
proof -
  let ?s = "sort_key f xs"
  have ne: "?s \<noteq> []" using assms by (metis length_0_conv length_sort)
  then obtain a as where s: "?s = a # as" by (cases ?s) auto
  have "sorted (map f ?s)" by (rule sorted_sort_key)
  then have "\<forall>y \<in> set as. f a \<le> f y" unfolding s by simp
  moreover have "set ?s = set xs" by simp
  ultimately have le: "\<forall>y \<in> set xs. f a \<le> f y" unfolding s by auto
  have "a \<in> set xs" using \<open>set ?s = set xs\<close> unfolding s by auto
  then have m: "Min (f ` set xs) = f a" using le by (intro Min_eqI) auto
  have "filter (\<lambda>y. f y = f a) ?s = filter (\<lambda>y. f y = f a) xs" by (rule sort_key_stable)
  then have "hd (filter (\<lambda>y. f y = f a) xs) = hd (filter (\<lambda>y. f y = f a) ?s)" by simp
  also have "\<dots> = a" unfolding s by simp
  finally show ?thesis unfolding m s by simp
qed

lemma highest_Max: "ks \<noteq> [] \<Longrightarrow> highest c ks = Max (c ` set ks)"
proof (induction ks)
  case Nil
  then show ?case by simp
next
  case (Cons k ks)
  show ?case
  proof (cases "ks = []")
    case True
    then show ?thesis by (simp add: highest_def)
  next
    case False
    with Cons.IH have "highest c ks = Max (c ` set ks)" by simp
    moreover have "highest c (k # ks) = max (c k) (highest c ks)" by (simp add: highest_def)
    ultimately show ?thesis using False by simp
  qed
qed

lemma highest_ge: "k \<in> set ks \<Longrightarrow> c k \<le> highest c ks"
  by (induction ks) (auto simp: highest_def)

lemma highest_attained: "ks \<noteq> [] \<Longrightarrow> \<exists>k \<in> set ks. c k = highest c ks"
proof -
  assume ne: "ks \<noteq> []"
  then have "Max (c ` set ks) \<in> c ` set ks" by (intro Max_in) simp_all
  then show ?thesis unfolding highest_Max [OF ne] by auto
qed

lemma find_hd_filter: "filter P xs \<noteq> [] \<Longrightarrow> find P xs = Some (hd (filter P xs))"
  by (induction xs) auto

lemma find_filter_weaker: "(\<And>k. P k \<Longrightarrow> Q k) \<Longrightarrow> find P (filter Q xs) = find P xs"
  by (induction xs) auto

lemma best_of:
  assumes ne: "ks \<noteq> []" and k: "\<And>k. key (mk k) = k" and c: "\<And>k. cnt (mk k) = c k"
  shows "\<exists>b rest. by_count_desc cnt (map mk ks) = b # rest
           \<and> first_highest c ks = Some (key b) \<and> cnt b = highest c ks"
proof -
  let ?f = "\<lambda>s. - int (cnt s)"
  let ?xs = "map mk ks"
  have xs: "?xs \<noteq> []" using ne by simp
  have "Min (?f ` set ?xs) = - int (Max (c ` set ks))"
  proof (rule Min_eqI)
    show "finite (?f ` set ?xs)" by simp
    show "- int (Max (c ` set ks)) \<le> y" if "y \<in> ?f ` set ?xs" for y
    proof -
      from that obtain k where "k \<in> set ks" "y = - int (c k)" using c by auto
      then show ?thesis by simp
    qed
    have "Max (c ` set ks) \<in> c ` set ks" using ne by (intro Max_in) simp_all
    then obtain k where kk: "k \<in> set ks" "c k = Max (c ` set ks)" by auto
    have "?f (mk k) \<in> ?f ` set ?xs" using kk(1) by simp
    then show "- int (Max (c ` set ks)) \<in> ?f ` set ?xs" unfolding c kk(2) .
  qed
  then have m: "Min (?f ` set ?xs) = - int (highest c ks)" using highest_Max [OF ne] by simp
  have fl: "filter (\<lambda>y. ?f y = - int (highest c ks)) ?xs = map mk (filter (\<lambda>k. c k = highest c ks) ks)"
    by (simp add: filter_map comp_def c)
  from highest_attained [OF ne] have fne: "filter (\<lambda>k. c k = highest c ks) ks \<noteq> []"
    by (simp add: filter_empty_conv)
  have h: "hd (by_count_desc cnt ?xs) = mk (hd (filter (\<lambda>k. c k = highest c ks) ks))"
    unfolding by_count_desc_def hd_sort_key [OF xs] m fl using fne by (simp add: hd_map)
  have "by_count_desc cnt ?xs \<noteq> []"
    unfolding by_count_desc_def using xs by (metis length_0_conv length_sort)
  then obtain b rest where br: "by_count_desc cnt ?xs = b # rest" by (cases "by_count_desc cnt ?xs") auto
  with h have b: "b = mk (hd (filter (\<lambda>k. c k = highest c ks) ks))" by simp
  have "first_highest c ks = Some (key b)"
    unfolding first_highest_def b k by (rule find_hd_filter [OF fne])
  moreover have "hd (filter (\<lambda>k. c k = highest c ks) ks) \<in> set (filter (\<lambda>k. c k = highest c ks) ks)"
    using fne by (rule hd_in_set)
  then have "cnt b = highest c ks" unfolding b c by simp
  ultimately show ?thesis using br by blast
qed

lemma first_highest_filter:
  assumes "filter (\<lambda>k. t \<le> c k) ks \<noteq> []"
  shows "first_highest c (filter (\<lambda>k. t \<le> c k) ks) = first_highest c ks"
proof -
  let ?cs = "filter (\<lambda>k. t \<le> c k) ks"
  have ne: "ks \<noteq> []" using assms by auto
  from highest_attained [OF assms] obtain a where a: "a \<in> set ?cs" "c a = highest c ?cs" by blast
  from highest_attained [OF ne] obtain b where b: "b \<in> set ks" "c b = highest c ks" by blast
  have "c a \<le> c b" using a(1) b(2) highest_ge [of a ks c] by simp
  moreover have "t \<le> c a" using a(1) by simp
  ultimately have "b \<in> set ?cs" using b(1) by simp
  then have "c b \<le> c a" using a(2) highest_ge [of b ?cs c] by simp
  with \<open>c a \<le> c b\<close> a(2) b(2) have hh: "highest c ?cs = highest c ks" by simp
  have "find (\<lambda>k. c k = highest c ks) ?cs = find (\<lambda>k. c k = highest c ks) ks"
    using \<open>t \<le> c a\<close> \<open>c a \<le> c b\<close> b(2) by (intro find_filter_weaker) simp
  then show ?thesis unfolding first_highest_def hh .
qed

lemma choose_key_spec:
  assumes k: "\<And>k. key (mk k) = k" and c: "\<And>k. cnt (mk k) = c k"
  shows "choose_key cnt t (map mk ks) = spec_select c t ks"
proof -
  let ?cs = "filter (\<lambda>k. t \<le> c k) ks"
  have fl: "filter (\<lambda>s. t \<le> cnt s) (map mk ks) = map mk ?cs"
    by (simp add: filter_map comp_def c)
  show ?thesis
  proof (cases "?cs = []")
    case True
    then have cand: "by_count_desc cnt (filter (\<lambda>s. t \<le> cnt s) (map mk ks)) = []"
      unfolding fl by (simp add: by_count_desc_def)
    show ?thesis
    proof (cases "ks = []")
      case True
      then show ?thesis
        by (simp add: choose_key_def spec_select_def by_count_desc_def falsy_key_def highest_def)
    next
      case False
      from best_of [where mk = mk and cnt = cnt and c = c, OF False k c] obtain b rest where
        b: "by_count_desc cnt (map mk ks) = b # rest" "first_highest c ks = Some (key b)"
           "cnt b = highest c ks" by blast
      show ?thesis
        unfolding choose_key_def cand spec_select_def using True b
        by (simp add: falsy_key_def)
    qed
  next
    case False
    then have ne: "ks \<noteq> []" by auto
    from best_of [where mk = mk and cnt = cnt and c = c, OF False k c] obtain a rest where
      a: "by_count_desc cnt (map mk ?cs) = a # rest" "first_highest c ?cs = Some (key a)"
         "cnt a = highest c ?cs" by blast
    from best_of [where mk = mk and cnt = cnt and c = c, OF ne k c] obtain b rest' where
      b: "by_count_desc cnt (map mk ks) = b # rest'" "first_highest c ks = Some (key b)"
         "cnt b = highest c ks" by blast
    have same: "key a = key b" using first_highest_filter [OF False] a(2) b(2) by simp
    show ?thesis
      unfolding choose_key_def fl a(1) spec_select_def b(1) using False a(2) same
      by (simp add: falsy_key_def Let_def)
  qed
qed

subsection \<open>The lookback\<close>

lemma MonthFromDay_range: "0 \<le> MonthFromDay d \<and> MonthFromDay d \<le> 11"
  by (simp add: MonthFromDay_def Let_def)

















subsection \<open>Month keys\<close>

lemma digit_char_props:
  assumes "d < 10"
  shows "is_digit (digit_char d)" "digit_val (digit_char d) = d" "digit_char d \<noteq> CHR ''-''"
    "\<not> is_ws (digit_char d)"
proof -
  have o: "(of_char (digit_char d) :: nat) = 48 + d"
    using assms by (simp add: digit_char_def)
  show "is_digit (digit_char d)" using assms by (simp add: is_digit_def o)
  show "digit_val (digit_char d) = d" by (simp add: digit_val_def o)
  show "digit_char d \<noteq> CHR ''-''"
  proof
    assume "digit_char d = CHR ''-''"
    then have "(of_char (digit_char d) :: nat) = of_char CHR ''-''" by simp
    then show False unfolding o by simp
  qed
  show "\<not> is_ws (digit_char d)" using assms by (simp add: is_ws_def o)
qed

lemma show_nat_digits: "list_all is_digit (show_nat n) \<and> show_nat n \<noteq> []"
proof (induction n rule: show_nat.induct)
  case (1 n)
  show ?case
  proof (cases "n < 10")
    case True
    then show ?thesis by (subst (1 2) show_nat.simps) (simp add: digit_char_props)
  next
    case False
    with 1 have "list_all is_digit (show_nat (n div 10))" by simp
    moreover have "is_digit (digit_char (n mod 10))" by (simp add: digit_char_props)
    ultimately show ?thesis using False by (subst (1 2) show_nat.simps) simp
  qed
qed

lemma digits_val_snoc: "digits_val (ds @ [c]) = 10 * digits_val ds + digit_val c"
  by (simp add: digits_val_def)

lemma digits_val_show_nat: "digits_val (show_nat n) = n"
proof (induction n rule: show_nat.induct)
  case (1 n)
  show ?case
  proof (cases "n < 10")
    case True
    then show ?thesis by (subst show_nat.simps) (simp add: digits_val_def digit_char_props)
  next
    case False
    with 1 have "digits_val (show_nat (n div 10)) = n div 10" by simp
    then show ?thesis using False
      by (subst show_nat.simps) (simp add: digits_val_snoc digit_char_props)
  qed
qed

lemma digits_val_zeros: "digits_val (replicate k CHR ''0'' @ ds) = digits_val ds"
proof -
  have "foldl (\<lambda>a c. 10 * a + digit_val c) 0 (replicate k CHR ''0'') = 0"
    by (induction k) (simp_all add: digit_val_def)
  then show ?thesis by (simp add: digits_val_def)
qed

lemma is_digit_facts:
  assumes "is_digit c"
  shows "\<not> is_ws c" "c \<noteq> CHR ''-''" "c \<noteq> CHR ''+''" "c \<noteq> CHR ''x''" "c \<noteq> CHR ''X''"
    "c \<noteq> CHR ''o''" "c \<noteq> CHR ''O''" "c \<noteq> CHR ''b''" "c \<noteq> CHR ''B''" "c \<noteq> CHR ''I''"
  using assms by (auto simp: is_digit_def is_ws_def Let_def)

lemma non_digits:
  "\<not> is_digit CHR ''-''" "\<not> is_digit CHR ''+''" "\<not> is_digit CHR ''x''" "\<not> is_digit CHR ''X''"
  "\<not> is_digit CHR ''o''" "\<not> is_digit CHR ''O''" "\<not> is_digit CHR ''b''" "\<not> is_digit CHR ''B''"
  "\<not> is_digit CHR ''I''" "is_digit CHR ''0''"
  by (simp_all add: is_digit_def)

lemma js_trim_id:
  assumes "s \<noteq> []" "\<not> is_ws (hd s)" "\<not> is_ws (last s)"
  shows "js_trim s = s"
proof -
  have 1: "dropWhile is_ws s = s" using assms(1,2) by (cases s) simp_all
  have "dropWhile is_ws (rev s) = rev s" using assms(1,3) by (cases "rev s") (simp_all add: hd_rev)
  then show ?thesis by (simp add: js_trim_def 1)
qed

lemma js_Number_digits:
  assumes "ds \<noteq> []" "list_all is_digit ds"
  shows "js_Number ds = Fin (real (digits_val ds))"
proof -
  from assms obtain c t where ds: "ds = c # t" by (cases ds) auto
  have c: "is_digit c" and t: "list_all is_digit t" using assms(2) unfolding ds by simp_all
  have "is_digit (last ds)" using assms by (simp add: list_all_iff)
  then have tr: "js_trim ds = ds"
    using assms(1) c by (intro js_trim_id) (simp_all add: ds is_digit_facts)
  have ht: "t \<noteq> [] \<Longrightarrow> is_digit (hd t)" using t by (cases t) simp_all
  have tw: "takeWhile is_digit ds = ds" "dropWhile is_digit ds = []"
    using assms(2) by (simp_all add: list_all_iff)
  have ninf: "ds \<noteq> ''Infinity''" using c unfolding ds by (auto simp: is_digit_facts)
  have u: "str_unsigned_decimal ds = Fin (real (digits_val ds))"
    using assms(1) ninf
    by (simp add: str_unsigned_decimal_def tw frac_digits_def after_frac_def exponent_part_def
        scale10_def decimal_value_def digits_val_def)
  show ?thesis
    unfolding js_Number_def tr using c ht u
    by (auto simp: ds non_digits)
qed

lemma number_of_part_digits:
  "ds \<noteq> [] \<Longrightarrow> list_all is_digit ds \<Longrightarrow> number_of_part (Some ds) = int (digits_val ds)"
  by (simp add: number_of_part_def js_Number_digits)

lemma split_dash_no_dash: "CHR ''-'' \<notin> set ds \<Longrightarrow> split_dash ds = [ds]"
  by (induction ds) auto

lemma split_dash_append:
  "CHR ''-'' \<notin> set ds \<Longrightarrow> split_dash (ds @ CHR ''-'' # rest) = ds # split_dash rest"
  by (induction ds) auto

lemma digits_no_dash: "list_all is_digit ds \<Longrightarrow> CHR ''-'' \<notin> set ds"
  by (auto simp: list_all_iff non_digits)

lemma pad2_digits:
  "list_all is_digit (padStart 2 CHR ''0'' (show_nat n)) \<and> padStart 2 CHR ''0'' (show_nat n) \<noteq> []
   \<and> digits_val (padStart 2 CHR ''0'' (show_nat n)) = n"
proof -
  show ?thesis
    using show_nat_digits [of n]
    by (auto simp: padStart_def digits_val_zeros digits_val_show_nat list_all_iff non_digits)
qed

text \<open>Reading a key back, for a year that is not negative.\<close>

lemma parse_month_key:
  assumes "0 \<le> y" "0 \<le> m"
  shows "number_of_part (part_at (split_dash (month_key y m)) 0) = y"
    and "number_of_part (part_at (split_dash (month_key y m)) 1) = m"
proof -
  let ?ys = "show_nat (nat y)" and ?ms = "padStart 2 CHR ''0'' (show_nat (nat m))"
  have k: "month_key y m = ?ys @ CHR ''-'' # ?ms"
    using assms by (simp add: month_key_def show_int_def)
  have yd: "list_all is_digit ?ys" "?ys \<noteq> []" using show_nat_digits by simp_all
  have md: "list_all is_digit ?ms" "?ms \<noteq> []" "digits_val ?ms = nat m" using pad2_digits by simp_all
  have s: "split_dash (month_key y m) = [?ys, ?ms]"
    unfolding k using yd(1) md(1)
    by (simp add: split_dash_append split_dash_no_dash digits_no_dash)
  show "number_of_part (part_at (split_dash (month_key y m)) 0) = y"
    unfolding s using assms(1) yd by (simp add: part_at_def number_of_part_digits digits_val_show_nat)
  show "number_of_part (part_at (split_dash (month_key y m)) 1) = m"
    unfolding s using assms(2) md by (simp add: part_at_def number_of_part_digits)
qed

lemma month_key_head:
  "0 \<le> y \<Longrightarrow> is_digit (hd (month_key y m))" "y < 0 \<Longrightarrow> hd (month_key y m) = CHR ''-''"
proof -
  show "0 \<le> y \<Longrightarrow> is_digit (hd (month_key y m))"
    using show_nat_digits [of "nat y"]
    by (cases "show_nat (nat y)") (simp_all add: month_key_def show_int_def)
  show "y < 0 \<Longrightarrow> hd (month_key y m) = CHR ''-''"
    by (simp add: month_key_def show_int_def)
qed

lemma month_key_inj:
  assumes "0 \<le> y1" "0 \<le> m1" "0 \<le> m2" "month_key y1 m1 = month_key y2 m2"
  shows "y1 = y2 \<and> m1 = m2"
proof (cases "0 \<le> y2")
  case True
  from parse_month_key [OF assms(1,2)] parse_month_key [OF True assms(3)] assms(4)
  show ?thesis by simp
next
  case False
  then have "hd (month_key y2 m2) = CHR ''-''" by (simp add: month_key_head)
  moreover have "is_digit (hd (month_key y1 m1))" using assms(1) by (rule month_key_head)
  ultimately show ?thesis using assms(4) by (simp add: non_digits)
qed

lemma fold_update2_map_of:
  "map_of (fold (\<lambda>x. AList.update (f x) (g x)) xs m) k =
     (if filter (\<lambda>x. f x = k) xs = [] then map_of m k else Some (g (last (filter (\<lambda>x. f x = k) xs))))"
proof (induction xs rule: rev_induct)
  case Nil
  then show ?case by simp
next
  case (snoc x xs)
  then show ?case by (simp add: update_conv')
qed

lemma fold_update2_keys:
  "fst ` set (fold (\<lambda>x. AList.update (f x) (g x)) xs m) = f ` set xs \<union> fst ` set m"
  by (induction xs arbitrary: m) (auto simp: dom_update)

lemma fold_update2_distinct:
  "distinct (map fst m) \<Longrightarrow> distinct (map fst (fold (\<lambda>x. AList.update (f x) (g x)) xs m))"
  by (induction xs arbitrary: m) (simp_all add: distinct_update)

lemma last_by_month_fold:
  "last_by_month env m series
     = fold (\<lambda>p. AList.update (month_key (fst (bucket_of env p)) (snd (bucket_of env p)))
                    (fst (bucket_of env p), snd (bucket_of env p), nav p)) series m"
  by (induction series arbitrary: m) (simp_all add: Let_def bucket_of_def)

lemma getMonth_range: "1 \<le> snd (bucket_of env p) \<and> snd (bucket_of env p) \<le> 12"
  using MonthFromDay_range [of "Day (LocalTime (tz env) (date p))"]
  by (simp add: bucket_of_def getMonth_def)

lemma ytd_loop_spec:
  "ytd_loop acc any vs =
     (foldl (\<lambda>a r. jmul a (jadd (Fin 1) r)) acc (List.map_filter id vs),
      any \<or> List.map_filter id vs \<noteq> [])"
proof (induction vs arbitrary: acc any)
  case Nil
  then show ?case by (simp add: List.map_filter_simps)
next
  case (Cons v vs)
  then show ?case by (cases v) (simp_all add: List.map_filter_simps)
qed

lemma sort_desc_unique:
  assumes "distinct xs" "distinct ys" "set xs = set (ys :: int list)"
  shows "sort_key (\<lambda>y. - y) xs = rev (sort ys)"
proof -
  let ?l = "sort_key (\<lambda>y. - y) xs"
  have "sorted (map (\<lambda>y. - y) ?l)" by (rule sorted_sort_key)
  then have "sorted_wrt (\<lambda>x y. y \<le> x) ?l" by (simp add: sorted_map)
  then have "sorted (rev ?l)" by (simp add: sorted_wrt_rev)
  moreover have "distinct (rev ?l)" using assms(1) by simp
  moreover have "set (rev ?l) = set (sort ys)" using assms(3) by simp
  moreover have "sorted (sort ys)" "distinct (sort ys)" using assms(2) by simp_all
  ultimately have "rev ?l = sort ys" by (intro sorted_distinct_set_unique)
  then show ?thesis by (metis rev_rev_ident)
qed

lemma pad_12: "padStart 2 CHR ''0'' (show_int 12) = ''12''"
  by code_simp

lemma navLookup_spec:
  assumes nn: "\<forall>p \<in> set series. 0 \<le> fst (bucket_of env p)" and b: "0 \<le> snd b"
  shows "navLookup (last_by_month env [] series) (month_key (fst b) (snd b))
           = spec_representative env series b"
proof -
  let ?K = "\<lambda>p. month_key (fst (bucket_of env p)) (snd (bucket_of env p))"
  have "?K p = month_key (fst b) (snd b) \<longleftrightarrow> bucket_of env p = b" if "p \<in> set series" for p
  proof
    assume e: "?K p = month_key (fst b) (snd b)"
    have "0 \<le> fst (bucket_of env p)" using nn that by simp
    moreover have "0 \<le> snd (bucket_of env p)" using getMonth_range [of env p] by simp
    ultimately have "fst (bucket_of env p) = fst b \<and> snd (bucket_of env p) = snd b"
      using b e by (intro month_key_inj)
    then show "bucket_of env p = b" by (simp add: prod_eq_iff)
  next
    assume "bucket_of env p = b"
    then show "?K p = month_key (fst b) (snd b)" by simp
  qed
  then have f: "filter (\<lambda>p. ?K p = month_key (fst b) (snd b)) series
              = filter (\<lambda>p. bucket_of env p = b) series"
    by (intro filter_cong) simp_all
  show ?thesis
    unfolding navLookup_def last_by_month_fold fold_update2_map_of f spec_representative_def
    by simp
qed

text \<open>The row the specification has for a bucket.\<close>

lemma row_of_key_spec:
  assumes nn: "\<forall>p \<in> set series. 0 \<le> fst (bucket_of env p)" and p: "p \<in> set series"
  shows "row_of_key (last_by_month env [] series)
           (month_key (fst (bucket_of env p)) (snd (bucket_of env p)))
         = \<lparr>r_year = fst (bucket_of env p), r_month = snd (bucket_of env p),
            r_nav = spec_representative env series (bucket_of env p),
            r_ret = spec_month_return env series (bucket_of env p)\<rparr>"
proof -
  let ?b = "bucket_of env p"
  let ?lbm = "last_by_month env [] series"
  have y: "0 \<le> fst ?b" using nn p by simp
  have m: "1 \<le> snd ?b" "snd ?b \<le> 12" using getMonth_range [of env p] by simp_all
  then have m0: "0 \<le> snd ?b" by simp
  note pk = parse_month_key [OF y m0]
  have v: "navLookup ?lbm (month_key (fst ?b) (snd ?b)) = spec_representative env series ?b"
    using nn m0 by (rule navLookup_spec)
  have "filter (\<lambda>q. bucket_of env q = ?b) series \<noteq> []" using p by (force simp: filter_empty_conv)
  then obtain val where val: "spec_representative env series ?b = Some val"
    by (simp add: spec_representative_def)
  have prev: "(if snd ?b > 1 then show_int (fst ?b) @ ''-'' @ padStart 2 CHR ''0'' (show_int (snd ?b - 1))
               else show_int (fst ?b - 1) @ ''-12'')
            = month_key (fst (spec_prev_month ?b)) (snd (spec_prev_month ?b))"
    using m by (auto simp: spec_prev_month_def month_key_def pad_12)
  have "0 \<le> snd (spec_prev_month ?b)" using m by (simp add: spec_prev_month_def)
  with nn have pv: "navLookup ?lbm (month_key (fst (spec_prev_month ?b)) (snd (spec_prev_month ?b)))
            = spec_representative env series (spec_prev_month ?b)"
    by (rule navLookup_spec)
  show ?thesis
    unfolding row_of_key_def Let_def pk prev pv v
    by (auto simp: spec_month_return_def val num_of_nullable_def split: option.splits)
qed

lemma find_unique_field:
  assumes "set rows = R ` S" and "\<And>b. b \<in> S \<Longrightarrow> r_year (R b) = fst b \<and> r_month (R b) = snd b"
  shows "find (\<lambda>r. r_year r = y \<and> r_month r = m) rows = (if (y, m) \<in> S then Some (R (y, m)) else None)"
proof (cases "(y, m) \<in> S")
  case True
  then have "R (y, m) \<in> set rows" using assms(1) by simp
  moreover have "r_year (R (y, m)) = y \<and> r_month (R (y, m)) = m" using assms(2) [OF True] by simp
  ultimately obtain r where r: "find (\<lambda>r. r_year r = y \<and> r_month r = m) rows = Some r"
    by (cases "find (\<lambda>r. r_year r = y \<and> r_month r = m) rows") (auto simp: find_None_iff)
  then have "r \<in> set rows" "r_year r = y \<and> r_month r = m"
    by (auto simp: find_Some_iff)
  then obtain b where "b \<in> S" "r = R b" using assms(1) by auto
  with assms(2) [of b] \<open>r_year r = y \<and> r_month r = m\<close> have "b = (y, m)" by (simp add: prod_eq_iff)
  with r \<open>r = R b\<close> True show ?thesis by simp
next
  case False
  have "\<not> (r_year r = y \<and> r_month r = m)" if "r \<in> set rows" for r
  proof -
    from that obtain b where b: "b \<in> S" "r = R b" using assms(1) by auto
    with assms(2) [of b] False show ?thesis by (auto simp: prod_eq_iff)
  qed
  then have "find (\<lambda>r. r_year r = y \<and> r_month r = m) rows = None" by (simp add: find_None_iff)
  with False show ?thesis by simp
qed

section \<open>The series is sorted and has one point per calendar day (C1)\<close>



section \<open>Trailing-window returns (C2)\<close>



section \<open>Degenerate series (C3)\<close>




section \<open>The equity index (C4)\<close>



section \<open>The drawdown (C5)\<close>




section \<open>Monthly returns (C6)\<close>

text \<open>
  On a series whose points all lie in years from 0 on, \<open>monthlyReturns\<close> is the table
  of the specification: for each bucket the value of its last point, the return against
  the calendar month before (December of the year before for January), none when that
  month is absent or has the value 0, the years descending, and for each year the
  compounded return of its months or none.
\<close>

lemma monthlyReturns_years_nonneg:
  assumes nn: "\<forall>p \<in> set series. 0 \<le> getFullYear (tz env) (date p)"
  shows "monthlyReturns env series = spec_monthlyReturns env series"
proof (cases "series = []")
  case True
  then show ?thesis by (simp add: monthlyReturns_def spec_monthlyReturns_def)
next
  case False
  let ?B = "bucket_of env"
  let ?K = "\<lambda>p. month_key (fst (?B p)) (snd (?B p))"
  let ?lbm = "last_by_month env [] series"
  let ?R = "\<lambda>b. \<lparr>r_year = fst b, r_month = snd b, r_nav = spec_representative env series b,
                 r_ret = spec_month_return env series b\<rparr>"
  let ?rows = "month_rows env series"
  have nn': "\<forall>p \<in> set series. 0 \<le> fst (?B p)" using nn by (simp add: bucket_of_def)
  have keys: "set (map fst ?lbm) = ?K ` set series"
    unfolding last_by_month_fold using fold_update2_keys [of ?K _ series "[]"] by simp
  have rows: "set ?rows = ?R ` ?B ` set series"
  proof -
    have "set ?rows = row_of_key ?lbm ` ?K ` set series"
      unfolding month_rows_def Let_def using keys by simp
    also have "\<dots> = (\<lambda>p. ?R (?B p)) ` set series"
      unfolding image_image using row_of_key_spec [OF nn'] by (intro image_cong) simp_all
    finally show ?thesis by (simp add: image_image)
  qed
  have slot: "slot_of ?rows y m = spec_month_return env series (y, m)" for y m
  proof -
    have "find (\<lambda>r. r_year r = y \<and> r_month r = m) ?rows
        = (if (y, m) \<in> ?B ` set series then Some (?R (y, m)) else None)"
      using rows by (rule find_unique_field) simp
    moreover have "spec_month_return env series (y, m) = None" if "(y, m) \<notin> ?B ` set series"
    proof -
      from that have "filter (\<lambda>p. ?B p = (y, m)) series = []"
        by (force simp: filter_empty_conv image_iff)
      then show ?thesis by (simp add: spec_month_return_def spec_representative_def)
    qed
    ultimately show ?thesis by (simp add: slot_of_def)
  qed
  have slot': "slot_of ?rows y = (\<lambda>m. spec_month_return env series (y, m))" for y
    by (rule ext) (rule slot)
  have rec: "year_record ?rows y = spec_year_record env series y" for y
    unfolding year_record_def spec_year_record_def Let_def ytd_loop_spec slot'
    by (simp add: spec_ytd_def)
  have "set (uniq (map r_year ?rows)) = (\<lambda>p. fst (?B p)) ` set series"
    unfolding uniq_def using rows by (simp add: image_image)
  then have years: "sort_key (\<lambda>y. - y) (uniq (map r_year ?rows)) = spec_years env series"
    unfolding spec_years_def by (intro sort_desc_unique) (simp_all add: uniq_def)
  show ?thesis
    using False unfolding monthlyReturns_def spec_monthlyReturns_def Let_def years
    by (simp add: rec)
qed

text \<open>
  C6 at a series in the year -1: the two points fall in November and December of the
  year -1 (\<open>getFullYear\<close> is -1, \<open>getMonth\<close> is 10 and 11), with the values 100 and 110.
  The keys are \<open>-1-11\<close> and \<open>-1-12\<close>; split at the dash each gives an empty first part,
  so both rows are read as year 0, month 1, and the month before is looked up under
  \<open>-1-12\<close>, the key of the December point. The table has one record, for the year 0,
  with \<open>Jan = 100 / 110 - 1\<close>, where the specification has a record for the year -1
  with no return in November and \<open>110 / 100 - 1\<close> in December.
\<close>

theorem monthlyReturns_negative_year:
  "series_year_minus_1 =
     [\<lparr>date = - 62171280000000, dateLabel = ''-000001-11'', nav = Fin 100, equity = Fin 100,
        drawdown = Fin 0\<rparr>,
      \<lparr>date = - 62168688000000, dateLabel = ''-000001-12'', nav = Fin 110, equity = Fin 110,
        drawdown = Fin 0\<rparr>]
   \<and> map (bucket_of utc_env) series_year_minus_1 = [(- 1, 11), (- 1, 12)]
   \<and> month_rows utc_env series_year_minus_1
     = [\<lparr>r_year = 0, r_month = 1, r_nav = Some (Fin 100), r_ret = Some (Fin (- (1 / 11)))\<rparr>,
        \<lparr>r_year = 0, r_month = 1, r_nav = Some (Fin 110), r_ret = Some (Fin 0)\<rparr>]
   \<and> monthlyReturns utc_env series_year_minus_1
     = ([\<lparr>Year = 0,
           slots = [Some (Fin (- (1 / 11))), None, None, None, None, None, None, None, None,
                    None, None, None],
           YTD = Some (Fin (- (1 / 11)))\<rparr>],
        [''Jan'', ''Feb'', ''Mar'', ''Apr'', ''May'', ''Jun'', ''Jul'', ''Aug'', ''Sep'', ''Oct'',
         ''Nov'', ''Dec''])
   \<and> spec_monthlyReturns utc_env series_year_minus_1
     = ([\<lparr>Year = - 1,
           slots = [None, None, None, None, None, None, None, None, None, None, None,
                    Some (Fin (1 / 10))],
           YTD = Some (Fin (1 / 10))\<rparr>],
        [''Jan'', ''Feb'', ''Mar'', ''Apr'', ''May'', ''Jun'', ''Jul'', ''Aug'', ''Sep'', ''Oct'',
         ''Nov'', ''Dec''])"
proof -
  let ?p1 = "\<lparr>date = - 62171280000000, dateLabel = ''-000001-11'', nav = Fin 100,
               equity = Fin 100, drawdown = Fin 0\<rparr>"
  let ?p2 = "\<lparr>date = - 62168688000000, dateLabel = ''-000001-12'', nav = Fin 110,
               equity = Fin 110, drawdown = Fin 0\<rparr>"
  have v: "series_year_minus_1 = [?p1, ?p2]" by code_simp
  have b1: "bucket_of utc_env ?p1 = (- 1, 11)" by code_simp
  have b2: "bucket_of utc_env ?p2 = (- 1, 12)" by code_simp
  have b: "map (bucket_of utc_env) series_year_minus_1 = [(- 1, 11), (- 1, 12)]"
    unfolding v by (simp add: b1 b2)
  have r: "month_rows utc_env series_year_minus_1
     = [\<lparr>r_year = 0, r_month = 1, r_nav = Some (Fin 100), r_ret = Some (Fin (- (1 / 11)))\<rparr>,
        \<lparr>r_year = 0, r_month = 1, r_nav = Some (Fin 110), r_ret = Some (Fin 0)\<rparr>]"
    unfolding v by code_simp
  have m: "monthlyReturns utc_env series_year_minus_1
     = ([\<lparr>Year = 0,
           slots = [Some (Fin (- (1 / 11))), None, None, None, None, None, None, None, None,
                    None, None, None],
           YTD = Some (Fin (- (1 / 11)))\<rparr>],
        [''Jan'', ''Feb'', ''Mar'', ''Apr'', ''May'', ''Jun'', ''Jul'', ''Aug'', ''Sep'', ''Oct'',
         ''Nov'', ''Dec''])"
    unfolding v by code_simp
  have y: "spec_years utc_env [?p1, ?p2] = [- 1]" by (simp add: spec_years_def b1 b2)
  have rep: "spec_representative utc_env [?p1, ?p2] c =
      (if c = (- 1, 12) then Some (Fin 110) else if c = (- 1, 11) then Some (Fin 100) else None)"
    for c
    by (auto simp: spec_representative_def b1 b2)
  have u: "map int [1 ..< 13] = [1, 2, 3, 4, 5, 6, 7, 8, 9, 10, 11, 12]" by code_simp
  have sl: "map (\<lambda>m. spec_month_return utc_env [?p1, ?p2] (- 1, m)) (map int [1 ..< 13])
      = [None, None, None, None, None, None, None, None, None, None, None, Some (Fin (1 / 10))]"
    unfolding u by (simp add: spec_month_return_def rep spec_prev_month_def jsub_def)
  have s: "spec_monthlyReturns utc_env series_year_minus_1
     = ([\<lparr>Year = - 1,
           slots = [None, None, None, None, None, None, None, None, None, None, None,
                    Some (Fin (1 / 10))],
           YTD = Some (Fin (1 / 10))\<rparr>],
        [''Jan'', ''Feb'', ''Mar'', ''Apr'', ''May'', ''Jun'', ''Jul'', ''Aug'', ''Sep'', ''Oct'',
         ''Nov'', ''Dec''])"
    unfolding v spec_monthlyReturns_def y spec_year_record_def list.map sl
    by (simp add: spec_ytd_def List.map_filter_simps month_names_def jsub_def)
  from v b r m s show ?thesis by (intro conjI)
qed

section \<open>Column inference (C7)\<close>

text \<open>
  C7: \<open>detectColumns\<close> is the selection the specification describes. On a non-empty
  row sequence it samples the first \<open>min(50, rowCount)\<close> rows over the keys of the first
  row; the date column is the column with the highest date-like count among those whose
  count is at least \<open>ceil(0.6 * sampleSize)\<close>, the first in key order on a tie; if no
  column reaches the threshold it is the column with the highest count when that count is
  not zero, and none when all counts are zero; the value column is chosen the same way
  from the numeric-like counts; on an empty row sequence both are absent.
\<close>

theorem detectColumns_spec:
  "detectColumns env rows = spec_detectColumns env rows"
proof (cases "rows = []")
  case True
  then show ?thesis by (simp add: detectColumns_def spec_detectColumns_def)
next
  case False
  let ?sample = "take (min (length rows) 50) rows"
  have t: "threshold_of (min (length rows) 50) = nat \<lceil>6 / 10 * real (length (take (min 50 (length rows)) rows))\<rceil>"
    by (simp add: threshold_of_def min.commute mult.commute)
  have d: "choose_key dateCount t (map (score_of env ?sample) ks)
         = spec_select (count_in (isDateLike env) ?sample) t ks" for t ks
    by (rule choose_key_spec) (simp_all add: score_of_def)
  have n: "choose_key numCount t (map (score_of env ?sample) ks)
         = spec_select (count_in isNumericLike ?sample) t ks" for t ks
    by (rule choose_key_spec) (simp_all add: score_of_def)
  show ?thesis
    using False unfolding detectColumns_def spec_detectColumns_def Let_def d n t
    by (simp add: min.commute)
qed

theorem detectColumns_spec_witness:
  "detectColumns utc_env rows_weak_date = (Some ''a'', None)
   \<and> spec_detectColumns utc_env rows_weak_date = (Some ''a'', None)"
proof -
  have "detectColumns utc_env rows_weak_date = (Some ''a'', None)" by code_simp
  with detectColumns_spec [of utc_env rows_weak_date] show ?thesis by simp
qed

section \<open>The numeric classifier (C8)\<close>

lemma is_finite_iff: "is_finite n \<longleftrightarrow> n \<noteq> NaN \<and> n \<noteq> PInf \<and> n \<noteq> NInf"
  by (cases n) simp_all

text \<open>
  C8, as the code has it: \<open>isNumericLike\<close> accepts exactly the cells the specification
  describes together with the cells that are or parse as an infinity (the code tests
  for NaN, not for finiteness). It accepts \<open>"1,234.5"\<close> and rejects \<open>"abc"\<close>,
  \<open>null\<close> and the empty string.
\<close>

theorem isNumericLike_char:
  "isNumericLike v = (spec_isNumericLike v \<or> is_infinite_cell v)
   \<and> isNumericLike (CStr ''1,234.5'')
   \<and> \<not> isNumericLike (CStr ''abc'')
   \<and> \<not> isNumericLike CNull
   \<and> \<not> isNumericLike (CStr '''')"
proof -
  have "isNumericLike v = (spec_isNumericLike v \<or> is_infinite_cell v)"
    by (cases v) (auto simp: is_finite_iff Let_def)
  moreover have "isNumericLike (CStr ''1,234.5'')"
    by (simp add: js_trim_def remove_commas_def is_ws_def js_Number_def str_unsigned_decimal_def
        is_digit_def frac_digits_def after_frac_def exponent_part_def)
  moreover have "\<not> isNumericLike (CStr ''abc'')"
    by (simp add: js_trim_def remove_commas_def is_ws_def js_Number_def str_unsigned_decimal_def
        is_digit_def frac_digits_def after_frac_def exponent_part_def)
  moreover have "\<not> isNumericLike (CStr '''')"
    by (simp add: js_trim_def remove_commas_def)
  ultimately show ?thesis by simp
qed

theorem isNumericLike_char_witness:
  "isNumericLike (CStr '' 1,000 '')
     = (spec_isNumericLike (CStr '' 1,000 '') \<or> is_infinite_cell (CStr '' 1,000 ''))
   \<and> isNumericLike (CStr '' 1,000 '')"
proof -
  have "isNumericLike (CStr '' 1,000 '')"
    by (simp add: js_trim_def remove_commas_def is_ws_def js_Number_def str_unsigned_decimal_def
        is_digit_def frac_digits_def after_frac_def exponent_part_def)
  with isNumericLike_char [of "CStr '' 1,000 ''"] show ?thesis by blast
qed

text \<open>
  C8 as stated fails on a text cell \<open>Infinity\<close>: the code accepts it, and it does not
  parse as a finite number.
\<close>

theorem isNumericLike_infinity_counterexample:
  "isNumericLike (CStr ''Infinity'') \<and> \<not> spec_isNumericLike (CStr ''Infinity'')
   \<and> js_Number ''Infinity'' = PInf"
  by (simp add: js_trim_def remove_commas_def is_ws_def js_Number_def str_unsigned_decimal_def)

section \<open>Rows the series builder skips (C9)\<close>

text \<open>
  C9, as the code has it: the builder skips, without raising, every row whose date cell
  fails coercion or whose value cell is not numeric-like, and no other row. Taking the
  skipped rows out of the input leaves the series as it is, and every point of the series
  has the date and the value of a row that is not skipped. A value that is an infinity is
  numeric-like, so its row is kept.
\<close>

theorem toSeries_skips_rows:
  "toSeries env rows dateKey navKey
     = toSeries env (filter (\<lambda>r. \<not> skipped env (the dateKey) (the navKey) r) rows) dateKey navKey
   \<and> (\<forall>p \<in> set (toSeries env rows dateKey navKey).
         \<exists>r \<in> set rows. \<not> skipped env (the dateKey) (the navKey) r
            \<and> coerceDate env (cell_at r (the dateKey)) = Some (date p)
            \<and> nav_of_cell (cell_at r (the navKey)) = nav p)"
proof (cases "rows = [] \<or> falsy_key dateKey \<or> falsy_key navKey")
  case True
  then show ?thesis by (auto simp: toSeries_def)
next
  case False
  let ?dk = "the dateKey" and ?nk = "the navKey"
  let ?rows' = "filter (\<lambda>r. \<not> skipped env ?dk ?nk r) rows"
  have out: "toSeries env rows dateKey navKey = walk (Fin 100) (Fin 100) None (clean_records env ?dk ?nk rows)"
    using False by (rule toSeries_unfold)
  have k: "kept_rows env ?dk ?nk ?rows' = kept_rows env ?dk ?nk rows" by (rule kept_rows_filter)
  have 1: "toSeries env rows dateKey navKey = toSeries env ?rows' dateKey navKey"
  proof (cases "?rows' = []")
    case True
    with k have "kept_rows env ?dk ?nk rows = []" by (simp add: kept_rows_def List.map_filter_simps)
    then have "clean_records env ?dk ?nk rows = []" by (rule clean_records_Nil)
    with True show ?thesis unfolding out by (simp add: toSeries_def)
  next
    case ne: False
    with False have "toSeries env ?rows' dateKey navKey
        = walk (Fin 100) (Fin 100) None (clean_records env ?dk ?nk ?rows')"
      by (intro toSeries_unfold) simp
    with clean_records_kept [OF k] show ?thesis unfolding out by simp
  qed
  have 2: "\<exists>r \<in> set rows. \<not> skipped env ?dk ?nk r
            \<and> coerceDate env (cell_at r ?dk) = Some (date p)
            \<and> nav_of_cell (cell_at r ?nk) = nav p"
    if "p \<in> set (toSeries env rows dateKey navKey)" for p
  proof -
    from that have "(date p, nav p) \<in> set (clean_records env ?dk ?nk rows)"
      unfolding out using walk_point by blast
    then have "(date p, nav p) \<in> set (kept_rows env ?dk ?nk rows)"
      unfolding clean_records_props(3) by simp
    then obtain r where r: "r \<in> set rows" "clean_row env ?dk ?nk r = Some (date p, nav p)"
      unfolding kept_rows_set by blast
    from r(2) have "\<not> skipped env ?dk ?nk r" using clean_row_None [of env ?dk ?nk r] by simp
    with r show ?thesis unfolding clean_row_Some by auto
  qed
  from 1 2 show ?thesis by blast
qed

theorem toSeries_skips_rows_witness:
  "toSeries utc_env rows_same_day (Some ''d'') (Some ''v'')
     = toSeries utc_env (take 3 rows_same_day) (Some ''d'') (Some ''v'')
   \<and> skipped utc_env ''d'' ''v'' (rows_same_day ! 3)
   \<and> toSeries utc_env rows_same_day (Some ''d'') (Some ''v'') \<noteq> []"
proof -
  have f: "filter (\<lambda>r. \<not> skipped utc_env (the (Some ''d'')) (the (Some ''v'')) r) rows_same_day
        = take 3 rows_same_day"
    unfolding rows_same_day_def by code_simp
  have s: "skipped utc_env ''d'' ''v'' (rows_same_day ! 3)"
    unfolding rows_same_day_def by code_simp
  have n: "toSeries utc_env rows_same_day (Some ''d'') (Some ''v'') \<noteq> []"
    unfolding rows_same_day_def by code_simp
  from toSeries_skips_rows [of utc_env rows_same_day "Some ''d''" "Some ''v''"] s n
  show ?thesis unfolding f by blast
qed

text \<open>
  C9 as stated fails on a row whose value cell is the text \<open>Infinity\<close>: the value is
  not a finite number, and the row gives a point.
\<close>

theorem toSeries_keeps_infinity_counterexample:
  "spec_skipped utc_env ''d'' ''v'' [(''d'', CDate (Some 0)), (''v'', CStr ''Infinity'')]
   \<and> toSeries utc_env [[(''d'', CDate (Some 0)), (''v'', CStr ''Infinity'')]] (Some ''d'') (Some ''v'')
       = [\<lparr>date = 0, dateLabel = ''1970-01-01'', nav = PInf, equity = Fin 100, drawdown = Fin 0\<rparr>]"
  by code_simp
section \<open>The sign of the equity index (C10)\<close>




end
